theory Spec2Isabelle
  imports Complex_Main "HOL-Library.Multiset"
begin

section \<open>Elastic tensors: the data model\<close>

text \<open>
  A shallow embedding of \<^verbatim>\<open>pymatgen/analysis/elasticity/elastic.py\<close>.
  Arrays of floats are lists of reals (arithmetic is read exactly, without rounding),
  an array of shape (N, 6) is a list of N rows, a raised exception is the left summand
  of a sum type and a warning is an entry of a list returned beside the value.
\<close>

type_synonym vec = "real list"
type_synonym mat = "real list list"

datatype error =
    OddRank                       \<comment> \<open>ValueError: ElasticTensor must have even rank\<close>
  | BaseTensorError               \<comment> \<open>an error of the base class constructor\<close>
  | Unphysical                    \<comment> \<open>ValueError: Bulk or shear modulus is negative\<close>
  | SoundVelocityUndefined        \<comment> \<open>ValueError: k_vrh or g_vrh is negative\<close>
  | AmbiguousEqStress             \<comment> \<open>ValueError: Multiple stresses found for equilibrium strain state\<close>
  | MissingStates "vec set"       \<comment> \<open>ValueError: Missing independent strain states\<close>
  | BooleanIndexMismatch          \<comment> \<open>IndexError: boolean index did not match the indexed array\<close>
  | IndexOutOfRange               \<comment> \<open>IndexError: index out of bounds\<close>
  | EmptyArgmin                   \<comment> \<open>ValueError: attempt to get argmin of an empty sequence\<close>
  | NotInTuple                    \<comment> \<open>ValueError: tuple.index(x): x not in tuple\<close>
  | SingularMatrix                \<comment> \<open>LinAlgError: Singular matrix\<close>
  | NotSquare                     \<comment> \<open>LinAlgError: the matrix is not square\<close>
  | EmptyUnion                    \<comment> \<open>TypeError: set.union without an argument\<close>
  | NegativeDimension             \<comment> \<open>ValueError: negative dimensions are not allowed\<close>
  | ZipLengthMismatch             \<comment> \<open>ValueError: zip() arguments differ in length\<close>
  | AttributeError                \<comment> \<open>AttributeError: 'numpy.ndarray' object has no attribute 'voigt'\<close>
  | ShapesNotAligned              \<comment> \<open>ValueError: shapes not aligned\<close>

datatype warning =
    NotVoigtSymmetric             \<comment> \<open>Input elastic tensor does not satisfy standard Voigt symmetries\<close>
  | NoEqState                     \<comment> \<open>No eq state found, returning zero voigt stress\<close>
  | ExtraStrainStates             \<comment> \<open>Extra strain states in strain-stress pairs are neglected\<close>

subsection \<open>NthOrderElasticTensor\<close>

text \<open>
  The object the base class \<^verbatim>\<open>Tensor.__new__\<close> returns: its array and the rank the
  base class recorded for it. The base class is not among the sources, so its
  constructor and its symmetry test are parameters of the model.
\<close>

record ndarray =
  shape :: "nat list"
  entries :: "real list"

record tensor = ndarray +
  rank :: nat

definition NthOrderElasticTensor_new ::
  "('arr \<Rightarrow> nat option \<Rightarrow> error + tensor) \<Rightarrow> (tensor \<Rightarrow> real \<Rightarrow> bool) \<Rightarrow>
   'arr \<Rightarrow> nat option \<Rightarrow> real \<Rightarrow> error + (tensor \<times> warning list)" where
  "NthOrderElasticTensor_new super_new is_voigt_symmetric input_array check_rank tol =
     (case super_new input_array check_rank of
        Inl e \<Rightarrow> Inl e
      | Inr obj \<Rightarrow>
          if rank obj mod 2 \<noteq> 0 then Inl OddRank
          else if \<not> is_voigt_symmetric obj tol then Inr (obj, [NotVoigtSymmetric])
          else Inr (obj, []))"

definition ElasticTensor_new ::
  "('arr \<Rightarrow> nat option \<Rightarrow> error + tensor) \<Rightarrow> (tensor \<Rightarrow> real \<Rightarrow> bool) \<Rightarrow>
   'arr \<Rightarrow> real \<Rightarrow> error + (tensor \<times> warning list)" where
  "ElasticTensor_new super_new is_voigt_symmetric input_array tol =
     NthOrderElasticTensor_new super_new is_voigt_symmetric input_array (Some 4) tol"

text \<open>
  Modelled from the spec: the rank checking of the generic tensor container
  (\<^verbatim>\<open>Tensor.__new__\<close>, not among the sources). The rank is the number of axes of the
  input array, and a requested rank that differs from it is an error. It stands for the
  base class wherever a concrete one is needed.
\<close>

definition Tensor_new :: "ndarray \<Rightarrow> nat option \<Rightarrow> error + tensor" where
  "Tensor_new input_array check_rank =
     (if check_rank \<noteq> None \<and> check_rank \<noteq> Some (length (shape input_array))
      then Inl BaseTensorError
      else Inr (ndarray.extend input_array (tensor.fields (length (shape input_array)))))"

subsection \<open>ElasticTensor: moduli\<close>

text \<open>
  A second-order elastic tensor is read through its 6x6 Voigt matrix. The compliance
  matrix is what \<^verbatim>\<open>np.linalg.inv(self.voigt)\<close> returned (a library call), kept
  beside it.
\<close>

record elastic_tensor =
  voigt :: mat
  compliance :: mat

definition upper_left :: "mat \<Rightarrow> mat" where    \<comment> \<open>\<^verbatim>\<open>m[:3, :3]\<close>\<close>
  "upper_left m = map (take 3) (take 3 m)"

definition lower_right :: "mat \<Rightarrow> mat" where   \<comment> \<open>\<^verbatim>\<open>m[3:, 3:]\<close>\<close>
  "lower_right m = map (drop 3) (drop 3 m)"

definition total :: "mat \<Rightarrow> real" where         \<comment> \<open>\<^verbatim>\<open>m.sum()\<close>\<close>
  "total m = sum_list (concat m)"

definition mean :: "mat \<Rightarrow> real" where          \<comment> \<open>\<^verbatim>\<open>m.mean()\<close>\<close>
  "mean m = total m / real (length (concat m))"

definition trace :: "mat \<Rightarrow> real" where         \<comment> \<open>\<^verbatim>\<open>m.trace()\<close>\<close>
  "trace m = sum_list (map (\<lambda>i. m ! i ! i) [0..<length m])"

definition triu :: "mat \<Rightarrow> mat" where           \<comment> \<open>\<^verbatim>\<open>np.triu(m)\<close>\<close>
  "triu m = map (\<lambda>i. replicate (min i (length (m ! i))) 0 @ drop i (m ! i)) [0..<length m]"

definition k_voigt :: "elastic_tensor \<Rightarrow> real" where
  "k_voigt self = mean (upper_left (voigt self))"

definition g_voigt :: "elastic_tensor \<Rightarrow> real" where
  "g_voigt self =
     (2 * trace (upper_left (voigt self)) - total (triu (upper_left (voigt self)))
        + 3 * trace (lower_right (voigt self))) / 15"

definition k_reuss :: "elastic_tensor \<Rightarrow> real" where
  "k_reuss self = 1 / total (upper_left (compliance self))"

definition g_reuss :: "elastic_tensor \<Rightarrow> real" where
  "g_reuss self =
     15 / (8 * trace (upper_left (compliance self))
           - 4 * total (triu (upper_left (compliance self)))
           + 3 * trace (lower_right (compliance self)))"

definition k_vrh :: "elastic_tensor \<Rightarrow> real" where
  "k_vrh self = (1/2) * (k_voigt self + k_reuss self)"

definition g_vrh :: "elastic_tensor \<Rightarrow> real" where
  "g_vrh self = (1/2) * (g_voigt self + g_reuss self)"

definition y_mod :: "real \<Rightarrow> elastic_tensor \<Rightarrow> real" where
  \<comment> \<open>the first argument is the unit factor \<^verbatim>\<open>eV_A3_to_GPa\<close>\<close>
  "y_mod eV_A3_to_GPa self =
     9 * 10^9 * k_vrh self * g_vrh self * eV_A3_to_GPa / (3 * k_vrh self + g_vrh self)"

definition universal_anisotropy :: "elastic_tensor \<Rightarrow> real" where
  "universal_anisotropy self =
     5 * g_voigt self / g_reuss self + k_voigt self / k_reuss self - 6"

definition homogeneous_poisson :: "elastic_tensor \<Rightarrow> real" where
  "homogeneous_poisson self =
     (1 - 2 / 3 * g_vrh self / k_vrh self) / (2 + 2 / 3 * g_vrh self / k_vrh self)"

subsection \<open>ElasticTensor: properties that need a structure\<close>

record Structure =
  n_sites :: nat                  \<comment> \<open>\<^verbatim>\<open>len(structure)\<close>\<close>
  num_atoms :: real               \<comment> \<open>\<^verbatim>\<open>structure.composition.num_atoms\<close>\<close>
  weight :: real                  \<comment> \<open>\<^verbatim>\<open>float(structure.composition.weight)\<close>\<close>
  volume :: real                  \<comment> \<open>\<^verbatim>\<open>structure.volume\<close>\<close>
  atomic_masses :: "real list"    \<comment> \<open>\<^verbatim>\<open>spec.atomic_mass for spec in structure.species\<close>\<close>

definition raise_if_unphysical ::
  "(elastic_tensor \<Rightarrow> 'a \<Rightarrow> error + 'b) \<Rightarrow> elastic_tensor \<Rightarrow> 'a \<Rightarrow> error + 'b" where
  "raise_if_unphysical func self args =
     (if k_vrh self < 0 \<or> g_vrh self < 0 then Inl Unphysical else func self args)"

definition ebind :: "error + 'a \<Rightarrow> ('a \<Rightarrow> error + 'b) \<Rightarrow> error + 'b" where
  "ebind r f = (case r of Inl e \<Rightarrow> Inl e | Inr v \<Rightarrow> f v)"

definition mass_density :: "Structure \<Rightarrow> real" where
  "mass_density s = 16605 / 10 * real (n_sites s) * weight s / (num_atoms s * volume s)"

definition site_density :: "Structure \<Rightarrow> real" where
  "site_density s = 10^30 * real (n_sites s) / volume s"

definition avg_mass :: "Structure \<Rightarrow> real" where
  "avg_mass s = 16605 / 10^31 * sum_list (atomic_masses s) / num_atoms s"

definition trans_v :: "elastic_tensor \<Rightarrow> Structure \<Rightarrow> error + real" where
  "trans_v = raise_if_unphysical (\<lambda>self s.
     if g_vrh self < 0 then Inl SoundVelocityUndefined
     else Inr ((10^9 * g_vrh self / mass_density s) powr (1/2)))"

definition long_v :: "elastic_tensor \<Rightarrow> Structure \<Rightarrow> error + real" where
  "long_v = raise_if_unphysical (\<lambda>self s.
     if g_vrh self < 0 then Inl SoundVelocityUndefined
     else Inr ((10^9 * (k_vrh self + 4 / 3 * g_vrh self) / mass_density s) powr (1/2)))"

definition snyder_ac :: "elastic_tensor \<Rightarrow> Structure \<Rightarrow> error + real" where
  "snyder_ac = raise_if_unphysical (\<lambda>self s.
     ebind (long_v self s) (\<lambda>vl. ebind (trans_v self s) (\<lambda>vt.
       Inr (38483 / 10^5 * avg_mass s * ((vl + 2 * vt) / 3) powr 3
            / (300 * site_density s powr (- 2 / 3) * real (n_sites s) powr (1 / 3))))))"

definition snyder_opt :: "elastic_tensor \<Rightarrow> Structure \<Rightarrow> error + real" where
  "snyder_opt = raise_if_unphysical (\<lambda>self s.
     ebind (long_v self s) (\<lambda>vl. ebind (trans_v self s) (\<lambda>vt.
       Inr (166914 / 10^28 * (vl + 2 * vt) / 3 / site_density s powr (- 2 / 3)
            * (1 - real (n_sites s) powr (- 1 / 3))))))"

definition snyder_total :: "elastic_tensor \<Rightarrow> Structure \<Rightarrow> error + real" where
  "snyder_total = raise_if_unphysical (\<lambda>self s.
     ebind (snyder_ac self s) (\<lambda>ac. ebind (snyder_opt self s) (\<lambda>opt. Inr (ac + opt))))"

definition clarke_thermalcond :: "real \<Rightarrow> elastic_tensor \<Rightarrow> Structure \<Rightarrow> error + real" where
  "clarke_thermalcond eV_A3_to_GPa = raise_if_unphysical (\<lambda>self s.
     Inr (87 / 100 * (13806 / 10^27) * avg_mass s powr (- 2 / 3) * mass_density s powr (1 / 6)
          * y_mod eV_A3_to_GPa self powr (1/2)))"

definition cahill_thermalcond :: "elastic_tensor \<Rightarrow> Structure \<Rightarrow> error + real" where
  "cahill_thermalcond = raise_if_unphysical (\<lambda>self s.
     ebind (long_v self s) (\<lambda>vl. ebind (trans_v self s) (\<lambda>vt.
       Inr (13806 / 10^27 / (248 / 100) * site_density s powr (2 / 3) * (vl + 2 * vt)))))"

definition agne_diffusive_thermalcond :: "elastic_tensor \<Rightarrow> Structure \<Rightarrow> error + real" where
  "agne_diffusive_thermalcond = raise_if_unphysical (\<lambda>self s.
     ebind (trans_v self s) (\<lambda>vt. ebind (long_v self s) (\<lambda>vl.
       Inr (76 / 100 * site_density s powr (2 / 3) * (13806 / 10^27)
            * ((1 / 3) * (2 * vt + vl))))))"

definition debye_temperature :: "elastic_tensor \<Rightarrow> Structure \<Rightarrow> error + real" where
  "debye_temperature = raise_if_unphysical (\<lambda>self s.
     ebind (long_v self s) (\<lambda>vl. ebind (trans_v self s) (\<lambda>vt.
       let v0 = volume s * (1 / 10^30) / real (n_sites s);
           vm = 3 powr (1 / 3) * (1 / vl^3 + 2 / vt^3) powr (- 1 / 3)
       in Inr ((105457 / 10^39) / (138065 / 10^28) * vm * (6 * pi^2 / v0) powr (1 / 3)))))"

text \<open>An elastic tensor with negative moduli: minus the identity, which is its own inverse.\<close>

definition neg_identity :: mat where
  "neg_identity = map (\<lambda>i. map (\<lambda>j. if i = j then - 1 else 0) [0..<6]) [0..<6]"

definition unphysical_tensor :: elastic_tensor where
  "unphysical_tensor = \<lparr>voigt = neg_identity, compliance = neg_identity\<rparr>"

definition some_structure :: Structure where
  "some_structure = \<lparr>n_sites = 2, num_atoms = 2, weight = 56, volume = 40, atomic_masses = [28, 28]\<rparr>"

subsection \<open>Property dictionaries\<close>

text \<open>
  A Python dict with string keys is an association list in insertion order; storing
  under a key that is present replaces its value in place.
\<close>

datatype pyval = PNone | PFloat real | PStructure Structure

type_synonym pydict = "(string \<times> pyval) list"

fun dict_set :: "('k \<times> 'v) list \<Rightarrow> 'k \<Rightarrow> 'v \<Rightarrow> ('k \<times> 'v) list" where
  "dict_set [] k v = [(k, v)]"
| "dict_set ((k', v') # d) k v = (if k' = k then (k, v) # d else (k', v') # dict_set d k v)"

fun dict_update :: "pydict \<Rightarrow> pydict \<Rightarrow> pydict" where
  "dict_update d [] = d"
| "dict_update d ((k, v) # kvs) = dict_update (dict_set d k v) kvs"

definition property_dict :: "real \<Rightarrow> elastic_tensor \<Rightarrow> pydict" where
  "property_dict eV_A3_to_GPa self =
     [(''k_voigt'', PFloat (k_voigt self)),
      (''k_reuss'', PFloat (k_reuss self)),
      (''k_vrh'', PFloat (k_vrh self)),
      (''g_voigt'', PFloat (g_voigt self)),
      (''g_reuss'', PFloat (g_reuss self)),
      (''g_vrh'', PFloat (g_vrh self)),
      (''universal_anisotropy'', PFloat (universal_anisotropy self)),
      (''homogeneous_poisson'', PFloat (homogeneous_poisson self)),
      (''y_mod'', PFloat (y_mod eV_A3_to_GPa self))]"

definition s_props :: "string list" where
  "s_props = [''trans_v'', ''long_v'', ''snyder_ac'', ''snyder_opt'', ''snyder_total'',
              ''clarke_thermalcond'', ''cahill_thermalcond'', ''debye_temperature'']"

text \<open>\<^verbatim>\<open>getattr(self, prop)\<close>: the method a name of \<^verbatim>\<open>s_props\<close> stands for.\<close>

definition getattr ::
  "real \<Rightarrow> string \<Rightarrow> (elastic_tensor \<Rightarrow> Structure \<Rightarrow> error + real) option" where
  "getattr eV_A3_to_GPa = map_of
     [(''trans_v'', trans_v), (''long_v'', long_v), (''snyder_ac'', snyder_ac),
      (''snyder_opt'', snyder_opt), (''snyder_total'', snyder_total),
      (''clarke_thermalcond'', clarke_thermalcond eV_A3_to_GPa),
      (''cahill_thermalcond'', cahill_thermalcond),
      (''debye_temperature'', debye_temperature)]"

text \<open>The dict comprehension: the properties are evaluated in order, the first error ends it.\<close>

fun eval_props ::
  "real \<Rightarrow> elastic_tensor \<Rightarrow> Structure \<Rightarrow> string list \<Rightarrow> error + pydict" where
  "eval_props c self s [] = Inr []"
| "eval_props c self s (p # ps) =
     (case getattr c p of
        None \<Rightarrow> Inl NotInTuple
      | Some f \<Rightarrow>
          ebind (f self s) (\<lambda>v. ebind (eval_props c self s ps) (\<lambda>d. Inr ((p, PFloat v) # d))))"

definition get_structure_property_dict ::
  "real \<Rightarrow> elastic_tensor \<Rightarrow> Structure \<Rightarrow> bool \<Rightarrow> bool \<Rightarrow> error + pydict" where
  "get_structure_property_dict eV_A3_to_GPa self s include_base_props ignore_errors =
     ebind (if ignore_errors \<and> (k_vrh self < 0 \<or> g_vrh self < 0)
           then Inr (map (\<lambda>p. (p, PNone)) s_props)
           else eval_props eV_A3_to_GPa self s s_props)
       (\<lambda>sp_dict.
          let sp_dict = dict_set sp_dict ''structure'' (PStructure s)
          in Inr (if include_base_props
                  then dict_update sp_dict (property_dict eV_A3_to_GPa self)
                  else sp_dict))"

section \<open>Strain states\<close>

subsection \<open>Equilibrium stress\<close>

text \<open>
  The strains and stresses are arrays of shape (N, 3, 3): lists of N matrices.
  \<^verbatim>\<open>np.all(abs(strain) < tol)\<close> over one sample, and
  \<^verbatim>\<open>np.allclose(a, b, atol=1e-8, rtol=0)\<close> on two samples of one shape.
\<close>

definition all_below :: "real \<Rightarrow> mat \<Rightarrow> bool" where
  "all_below tol m = list_all (list_all (\<lambda>x. \<bar>x\<bar> < tol)) m"

definition isclose :: "mat \<Rightarrow> mat \<Rightarrow> bool" where
  "isclose a b = list_all2 (list_all2 (\<lambda>x y. \<bar>x - y\<bar> \<le> 1 / 10^8)) a b"

definition zeros33 :: mat where
  "zeros33 = replicate 3 (replicate 3 0)"

definition zero_strain_stresses :: "mat list \<Rightarrow> mat list \<Rightarrow> real \<Rightarrow> mat list" where
  \<comment> \<open>\<^verbatim>\<open>stress_array[np.all(abs(strain_array) < tol, axis=(1, 2))]\<close>\<close>
  "zero_strain_stresses strains stresses tol =
     map snd (filter (\<lambda>(e, s). all_below tol e) (zip strains stresses))"

definition find_eq_stress ::
  "mat list \<Rightarrow> mat list \<Rightarrow> real \<Rightarrow> error + (mat \<times> warning list)" where
  "find_eq_stress strains stresses tol =
     (if length strains \<noteq> length stresses then Inl BooleanIndexMismatch
      else
        let eq_stress = zero_strain_stresses strains stresses tol in
        if eq_stress \<noteq> [] then
          let all_same = list_all (\<lambda>s. isclose s (hd eq_stress)) eq_stress in
          if length eq_stress > 1 \<and> \<not> all_same then Inl AmbiguousEqStress
          else Inr (hd eq_stress, [])
        else Inr (zeros33, [NoEqState]))"

subsection \<open>Classification\<close>

text \<open>
  Modelled from the spec: the reduction of a sample to its 6-component form
  (\<^verbatim>\<open>Tensor.zeroed\<close> and \<^verbatim>\<open>Tensor.voigt\<close>, not among the sources). Entries of
  magnitude below the tolerance become zero; the symmetric index pairs are folded in
  the order 11, 22, 33, 23, 13, 12, each component times the Voigt scale of its class
  (a parameter: the scales of \<^verbatim>\<open>Strain\<close> and \<^verbatim>\<open>Stress\<close> are not among the sources).
\<close>

definition zeroed :: "real \<Rightarrow> mat \<Rightarrow> mat" where
  "zeroed tol m = map (map (\<lambda>x. if \<bar>x\<bar> < tol then 0 else x)) m"

definition voigt_vec :: "vec \<Rightarrow> mat \<Rightarrow> vec" where
  "voigt_vec vscale m =
     map (\<lambda>(n, i, j). vscale ! n * m ! i ! j)
       [(0, 0, 0), (1, 1, 1), (2, 2, 2), (3, 1, 2), (4, 0, 2), (5, 0, 1)]"

definition nonzero :: "vec \<Rightarrow> nat list" where     \<comment> \<open>\<^verbatim>\<open>np.nonzero(v)[0].tolist()\<close>\<close>
  "nonzero v = filter (\<lambda>i. v ! i \<noteq> 0) [0..<length v]"

fun argmin :: "real list \<Rightarrow> nat" where            \<comment> \<open>\<^verbatim>\<open>np.argmin\<close>: the first least entry\<close>
  "argmin [] = 0"
| "argmin [x] = 0"
| "argmin (x # y # ys) = (let j = argmin (y # ys) in if x \<le> (y # ys) ! j then 0 else Suc j)"

record strain_data =
  data_strains :: "vec list"      \<comment> \<open>the entry \<^verbatim>\<open>"strains"\<close>\<close>
  data_stresses :: "vec list"     \<comment> \<open>the entry \<^verbatim>\<open>"stresses"\<close>\<close>

type_synonym ss_dict = "(vec \<times> strain_data) list"

text \<open>
  The body of the loop over the independent index sets. \<^verbatim>\<open>mode\<close> is the row of the
  boolean mask for one sample: its pattern of entries above the fixed threshold equals
  the template of the index set. \<^verbatim>\<open>veq\<close> is the Voigt equilibrium stress when
  \<^verbatim>\<open>add_eq\<close> holds. The two \<^verbatim>\<open>argsort\<close> calls give one permutation, so the pairs
  are sorted together; numpy leaves the order of equal keys open, here it is the stable
  one.
\<close>

definition template :: "nat list \<Rightarrow> bool list" where
  "template ind = map (\<lambda>i. i \<in> set ind) [0..<6]"

definition mode :: "nat list \<Rightarrow> vec \<Rightarrow> bool" where
  "mode ind vstrain = (map (\<lambda>x. \<bar>x\<bar> > 1 / 10^10) vstrain = template ind)"

definition classify_state ::
  "vec list \<Rightarrow> vec list \<Rightarrow> vec option \<Rightarrow> bool \<Rightarrow> nat list \<Rightarrow> error + (vec \<times> strain_data)" where
  "classify_state vstrains vstresses veq sort' ind =
     (if length vstresses \<noteq> length vstrains then Inl BooleanIndexMismatch
      else
        let matched = filter (\<lambda>(e, s). mode ind e) (zip vstrains vstresses);
            mstresses = map snd matched;
            mstrains = map fst matched
        in
        if mstrains = [] then Inl IndexOutOfRange
        else if ind = [] then Inl EmptyArgmin
        else
          let taken = map (\<lambda>i. last mstrains ! i) ind;
              min_nonzero_ind = argmin (map abs taken);
              min_nonzero_val = taken ! min_nonzero_ind;
              strain_state = map (\<lambda>x. x / min_nonzero_val) (last mstrains);
              pairs = zip mstrains mstresses
                        @ (case veq of None \<Rightarrow> [] | Some q \<Rightarrow> [(replicate 6 0, q)]);
              pairs = (if sort' then sort_key (\<lambda>(e, s). e ! hd ind) pairs else pairs)
          in Inr (strain_state, \<lparr>data_strains = map fst pairs, data_stresses = map snd pairs\<rparr>))"

fun classify_all ::
  "vec list \<Rightarrow> vec list \<Rightarrow> vec option \<Rightarrow> bool \<Rightarrow> nat list list \<Rightarrow> ss_dict \<Rightarrow> error + ss_dict" where
  "classify_all vstrains vstresses veq sort' [] d = Inr d"
| "classify_all vstrains vstresses veq sort' (ind # inds) d =
     (case classify_state vstrains vstresses veq sort' ind of
        Inl e \<Rightarrow> Inl e
      | Inr (strain_state, g) \<Rightarrow>
          classify_all vstrains vstresses veq sort' inds (dict_set d strain_state g))"

text \<open>
  \<^verbatim>\<open>get_strain_state_dict\<close>. The first two arguments are the Voigt scales of
  \<^verbatim>\<open>Strain\<close> and \<^verbatim>\<open>Stress\<close>. The set \<^verbatim>\<open>independent\<close> is walked in the order of
  first occurrence (Python fixes no order for a set). The equilibrium search is called
  without \<^verbatim>\<open>tol\<close>, so with its default, and \<^verbatim>\<open>.voigt\<close> is read from what it
  returns: the zero \<^verbatim>\<open>Stress\<close> when no equilibrium sample is found, but a row of
  \<^verbatim>\<open>np.array(stresses)\<close>, a plain array without that attribute, when one is found, so
  that this path raises.
\<close>

definition get_strain_state_dict ::
  "vec \<Rightarrow> vec \<Rightarrow> mat list \<Rightarrow> mat list \<Rightarrow> mat option \<Rightarrow> real \<Rightarrow> bool \<Rightarrow> bool \<Rightarrow>
   error + (ss_dict \<times> warning list)" where
  "get_strain_state_dict vse vss strains stresses eq_stress tol add_eq sort' =
     (let vstrains = map (\<lambda>s. voigt_vec vse (zeroed tol s)) strains;
          vstresses = map (\<lambda>s. voigt_vec vss (zeroed tol s)) stresses;
          independent = remdups (map nonzero vstrains)
      in
      ebind (if add_eq then
               (case eq_stress of
                  Some q \<Rightarrow> Inr (Some (voigt_vec vss q), [])
                | None \<Rightarrow> ebind (find_eq_stress strains stresses (1 / 10^10))
                           (\<lambda>(q, ws).
                              if zero_strain_stresses strains stresses (1 / 10^10) \<noteq> []
                              then Inl AttributeError
                              else Inr (Some (voigt_vec vss q), ws)))
             else Inr (None, []))
        (\<lambda>(veq, ws).
           ebind (classify_all vstrains vstresses veq sort' independent [])
             (\<lambda>d. Inr (d, ws))))"


subsection \<open>Fit from independent strains\<close>

definition strain_states :: "vec list" where     \<comment> \<open>the rows of \<^verbatim>\<open>np.eye(6)\<close>\<close>
  "strain_states = map (\<lambda>i. map (\<lambda>j. if i = j then 1 else 0) [0..<6]) [0..<6]"

definition column :: "nat \<Rightarrow> vec list \<Rightarrow> vec" where     \<comment> \<open>\<^verbatim>\<open>a[:, i]\<close>\<close>
  "column i a = map (\<lambda>r. r ! i) a"

text \<open>
  The double loop that fills \<^verbatim>\<open>c_ij\<close>. \<^verbatim>\<open>polyfit x y\<close> stands for
  \<^verbatim>\<open>np.polyfit(x, y, 1)[0]\<close>, the slope of the least-squares line (a library call).
\<close>

definition c_ij_of :: "(vec \<Rightarrow> vec \<Rightarrow> real) \<Rightarrow> ss_dict \<Rightarrow> mat" where
  "c_ij_of polyfit ss_dict =
     map (\<lambda>ii. map (\<lambda>jj.
            polyfit (column ii (data_strains (the (map_of ss_dict (strain_states ! ii)))))
                    (column jj (data_stresses (the (map_of ss_dict (strain_states ! ii))))))
          [0..<6]) [0..<6]"

text \<open>
  What follows the classification in \<^verbatim>\<open>from_independent_strains\<close>.
  \<^verbatim>\<open>from_voigt\<close> (with the constructor of the class it calls) and \<^verbatim>\<open>zeroed\<close>
  on the result belong to the base class and are parameters.
\<close>

definition fit_states ::
  "(vec \<Rightarrow> vec \<Rightarrow> real) \<Rightarrow> (mat \<Rightarrow> error + ('t \<times> warning list)) \<Rightarrow> (real \<Rightarrow> 't \<Rightarrow> 't) \<Rightarrow>
   ss_dict \<Rightarrow> warning list \<Rightarrow> bool \<Rightarrow> real \<Rightarrow> error + ('t \<times> warning list)" where
  "fit_states polyfit from_voigt zeroed_t ss_dict ws vasp tol =
     (if \<not> set strain_states \<subseteq> fst ` set ss_dict
      then Inl (MissingStates (set strain_states - fst ` set ss_dict))
      else
        let ws = ws @ (if fst ` set ss_dict - set strain_states \<noteq> {}
                       then [ExtraStrainStates] else []);
            c_ij = c_ij_of polyfit ss_dict;
            c_ij = (if vasp then map (map (\<lambda>x. x * (- 1 / 10))) c_ij else c_ij)
        in ebind (from_voigt c_ij) (\<lambda>(instance, ws'). Inr (zeroed_t tol instance, ws @ ws')))"

definition from_independent_strains ::
  "(vec \<Rightarrow> vec \<Rightarrow> real) \<Rightarrow> (mat \<Rightarrow> error + ('t \<times> warning list)) \<Rightarrow> (real \<Rightarrow> 't \<Rightarrow> 't) \<Rightarrow>
   vec \<Rightarrow> vec \<Rightarrow> mat list \<Rightarrow> mat list \<Rightarrow> mat option \<Rightarrow> bool \<Rightarrow> real \<Rightarrow>
   error + ('t \<times> warning list)" where
  "from_independent_strains polyfit from_voigt zeroed_t vse vss strains stresses eq_stress vasp tol =
     ebind (get_strain_state_dict vse vss strains stresses eq_stress (1 / 10^10) True True)
       (\<lambda>(ss_dict, ws). fit_states polyfit from_voigt zeroed_t ss_dict ws vasp tol)"

subsection \<open>Sample data\<close>

text \<open>Symmetric 3x3 samples given by their six independent components.\<close>

definition sym33 :: "real \<Rightarrow> real \<Rightarrow> real \<Rightarrow> real \<Rightarrow> real \<Rightarrow> real \<Rightarrow> mat" where
  "sym33 xx yy zz yz xz xy = [[xx, xy, xz], [xy, yy, yz], [xz, yz, zz]]"

definition strain_vscale :: vec where
  "strain_vscale = [1, 1, 1, 2, 2, 2]"

definition stress_vscale :: vec where
  "stress_vscale = [1, 1, 1, 1, 1, 1]"

definition stress_a :: mat where
  "stress_a = sym33 (8 / 10^9) 0 0 0 0 0"

definition stress_b :: mat where
  "stress_b = sym33 (- 8 / 10^9) 0 0 0 0 0"

definition strain_big :: mat where
  "strain_big = sym33 (1 / 100) 0 0 0 0 0"

definition strain_tiny_pos :: mat where
  "strain_tiny_pos = sym33 (5 / 10^11) 0 0 0 0 0"

definition strain_tiny_neg :: mat where
  "strain_tiny_neg = sym33 (- 5 / 10^11) 0 0 0 0 0"

definition strain_two :: mat where
  "strain_two = sym33 (1 / 100) (2 / 100) 0 0 0 0"


definition strain_two_tiny :: mat where
  "strain_two_tiny = sym33 (1 / 100) (5 / 10^11) 0 0 0 0"

definition stress_c :: mat where
  "stress_c = sym33 1 2 3 0 0 0"

definition stress_d :: mat where
  "stress_d = sym33 4 5 6 0 0 0"

text \<open>
  For examples: the slope of the least-squares line through the points (x, y), which is
  what \<^verbatim>\<open>np.polyfit(x, y, 1)[0]\<close> computes when the abscissas are not all equal; the
  Voigt matrix itself for the fitted tensor; and six samples along the six Voigt axes
  with a seventh along a mixed direction.
\<close>

definition lstsq_slope :: "vec \<Rightarrow> vec \<Rightarrow> real" where
  "lstsq_slope x y =
     (let n = real (length x); sx = sum_list x; sy = sum_list y;
          sxy = sum_list (map2 (*) x y); sxx = sum_list (map2 (*) x x)
      in (n * sxy - sx * sy) / (n * sxx - sx * sx))"

definition voigt_instance :: "mat \<Rightarrow> error + (mat \<times> warning list)" where
  "voigt_instance c = Inr (c, [])"

definition axis_strains :: "mat list" where
  "axis_strains =
     [sym33 (1 / 100) 0 0 0 0 0, sym33 0 (1 / 100) 0 0 0 0, sym33 0 0 (1 / 100) 0 0 0,
      sym33 0 0 0 (1 / 200) 0 0, sym33 0 0 0 0 (1 / 200) 0, sym33 0 0 0 0 0 (1 / 200)]"

definition axis_stresses :: "mat list" where
  "axis_stresses =
     [sym33 2 1 1 0 0 0, sym33 1 2 1 0 0 0, sym33 1 1 2 0 0 0,
      sym33 0 0 0 1 0 0, sym33 0 0 0 0 1 0, sym33 0 0 0 0 0 1]"

definition group_of :: "vec \<Rightarrow> vec \<Rightarrow> strain_data" where
  "group_of e s = \<lparr>data_strains = [replicate 6 0, e], data_stresses = [replicate 6 0, s]\<rparr>"

definition axis_dict :: ss_dict where
  "axis_dict =
     [([1, 0, 0, 0, 0, 0], group_of [1 / 100, 0, 0, 0, 0, 0] [2, 1, 1, 0, 0, 0]),
      ([0, 1, 0, 0, 0, 0], group_of [0, 1 / 100, 0, 0, 0, 0] [1, 2, 1, 0, 0, 0]),
      ([0, 0, 1, 0, 0, 0], group_of [0, 0, 1 / 100, 0, 0, 0] [1, 1, 2, 0, 0, 0]),
      ([0, 0, 0, 1, 0, 0], group_of [0, 0, 0, 1 / 100, 0, 0] [0, 0, 0, 1, 0, 0]),
      ([0, 0, 0, 0, 1, 0], group_of [0, 0, 0, 0, 1 / 100, 0] [0, 0, 0, 0, 1, 0]),
      ([0, 0, 0, 0, 0, 1], group_of [0, 0, 0, 0, 0, 1 / 100] [0, 0, 0, 0, 0, 1]),
      ([1, 2, 0, 0, 0, 0], group_of [1 / 100, 2 / 100, 0, 0, 0, 0] [1, 2, 3, 0, 0, 0])]"

definition two_dict :: ss_dict where
  "two_dict =
     [([1, 0, 0, 0, 0, 0], group_of [1 / 100, 0, 0, 0, 0, 0] [4, 5, 6, 0, 0, 0]),
      ([1, 2, 0, 0, 0, 0], group_of [1 / 100, 2 / 100, 0, 0, 0, 0] [1, 2, 3, 0, 0, 0])]"

section \<open>Symbol tables\<close>

text \<open>
  \<^verbatim>\<open>itertools.combinations_with_replacement(pool, r)\<close>: the tuples of r elements of the
  pool, taken at non-decreasing positions, in lexicographic order of the positions.
\<close>

fun combinations_with_replacement :: "'a list \<Rightarrow> nat \<Rightarrow> 'a list list" where
  "combinations_with_replacement pool 0 = [[]]"
| "combinations_with_replacement [] (Suc r) = []"
| "combinations_with_replacement (x # xs) (Suc r) =
     map ((#) x) (combinations_with_replacement (x # xs) r)
       @ combinations_with_replacement xs (Suc r)"

text \<open>
  \<^verbatim>\<open>itertools.permutations(t)\<close>: every ordering of the positions of the tuple, in
  lexicographic order of the positions (equal values at different positions give the
  same tuple more than once).
\<close>

function permutations :: "'a list \<Rightarrow> 'a list list" where
  "permutations xs =
     (if xs = [] then [[]]
      else concat (map (\<lambda>i. map ((#) (xs ! i)) (permutations (take i xs @ drop (Suc i) xs)))
                    [0..<length xs]))"
  by pat_completeness auto
termination
  by (relation "measure length") auto

declare permutations.simps [simp del]

text \<open>\<^verbatim>\<open>str(n)\<close> for a non-negative integer.\<close>

definition digit_char :: "nat \<Rightarrow> char" where
  "digit_char n = char_of (48 + n)"

function str_nat :: "nat \<Rightarrow> string" where
  "str_nat n = (if n < 10 then [digit_char n] else str_nat (n div 10) @ [digit_char (n mod 10)])"
  by pat_completeness auto
termination
  by (relation "measure id") auto

declare str_nat.simps [simp del]

text \<open>
  An entry of an object array: the integer 0 that \<^verbatim>\<open>np.zeros\<close> puts there, or a sympy
  symbol, which is equal to another one when the names are equal.
\<close>

datatype entry = Zero | Symbol string

definition symbol_of :: "nat list \<Rightarrow> entry" where
  "symbol_of idx = Symbol (''c_'' @ concat (map str_nat idx))"

text \<open>
  \<^verbatim>\<open>get_symbol_list(rank, dim)\<close>. The dense array is a function of the index tuple;
  its cells are the tuples of length \<^verbatim>\<open>rank\<close> over \<^verbatim>\<open>range(dim)\<close>.
\<close>

definition get_symbol_list :: "nat \<Rightarrow> nat \<Rightarrow> entry list \<times> (nat list \<Rightarrow> entry)" where
  "get_symbol_list rank' dim' =
     (let indices = combinations_with_replacement [0..<dim'] rank';
          c_vec = map symbol_of indices;
          c_arr = foldl (\<lambda>c_arr idx.
                    foldl (\<lambda>c_arr perm. c_arr(perm := symbol_of idx)) c_arr (permutations idx))
                  (\<lambda>perm. Zero) indices
      in (c_vec, c_arr))"

definition in_shape :: "nat \<Rightarrow> nat \<Rightarrow> nat list \<Rightarrow> bool" where
  "in_shape rank' dim' p = (length p = rank' \<and> list_all (\<lambda>n. n < dim') p)"

section \<open>Finite differences\<close>

definition dot :: "vec \<Rightarrow> vec \<Rightarrow> real" where      \<comment> \<open>\<^verbatim>\<open>np.dot\<close> of two vectors\<close>
  "dot u v = sum_list (map2 (*) u v)"

text \<open>
  \<^verbatim>\<open>np.linalg.solve(a, b)\<close> in exact arithmetic: elimination with partial pivoting
  (the row of largest magnitude in the leading column, the first of them), one unknown
  at a time, and back substitution. A system is a list of rows, each with its right-hand
  side. A leading column of zeros is the singular matrix error.
\<close>

definition eliminate :: "vec \<Rightarrow> real \<Rightarrow> vec \<times> real \<Rightarrow> vec \<times> real" where
  "eliminate pr pc row =
     (let f = hd (fst row) / hd pr
      in (map2 (\<lambda>x y. x - f * y) (tl (fst row)) (tl pr), snd row - f * pc))"

fun solve_rows :: "nat \<Rightarrow> (vec \<times> real) list \<Rightarrow> error + vec" where
  "solve_rows 0 rows = Inr []"
| "solve_rows (Suc n) rows =
     (if rows = [] then Inl SingularMatrix
      else
        let p = argmin (map (\<lambda>(r, c). - \<bar>hd r\<bar>) rows);
            pr = fst (rows ! p);
            pc = snd (rows ! p);
            others = take p rows @ drop (Suc p) rows
        in
        if hd pr = 0 then Inl SingularMatrix
        else
          case solve_rows n (map (eliminate pr pc) others) of
            Inl e \<Rightarrow> Inl e
          | Inr xs \<Rightarrow> Inr ((pc - dot (tl pr) xs) / hd pr # xs))"

definition solve :: "mat \<Rightarrow> vec \<Rightarrow> error + vec" where
  "solve a b =
     (if list_all (\<lambda>r. length r = length a) a \<and> length b = length a
      then solve_rows (length a) (zip a b)
      else Inl NotSquare)"

definition get_diff_coeff :: "vec \<Rightarrow> nat \<Rightarrow> error + vec" where
  "get_diff_coeff hvec n =
     (let acc = length hvec;
          a = map (\<lambda>k. map (\<lambda>h. h ^ k) hvec) [0..<acc]
      in if n \<ge> acc then Inl IndexOutOfRange
         else solve a ((replicate acc 0)[n := fact n]))"

section \<open>Theorems\<close>

subsection \<open>Construction of tensors\<close>

text \<open>
  Claim C7. Whatever the base class does, constructing an NthOrderElasticTensor from an
  array for which the base class can only return an object of odd rank fails: either the
  base class raised, or the rank test does. When the base class returns an object of
  even rank that fails the Voigt symmetry test at the given tolerance, the object is
  still returned, with the one warning.
\<close>

theorem C7_odd_rank_fails_asymmetry_warns:
  "((\<forall>obj. super_new a cr = Inr obj \<longrightarrow> odd (rank obj)) \<longrightarrow>
      (\<exists>e. NthOrderElasticTensor_new super_new ivs a cr tol = Inl e))
   \<and> (\<forall>obj. super_new a cr = Inr obj \<and> odd (rank obj) \<longrightarrow>
          NthOrderElasticTensor_new super_new ivs a cr tol = Inl OddRank)
   \<and> (\<forall>obj. super_new a cr = Inr obj \<and> even (rank obj) \<and> \<not> ivs obj tol \<longrightarrow>
          NthOrderElasticTensor_new super_new ivs a cr tol = Inr (obj, [NotVoigtSymmetric]))"
  by (cases "super_new a cr") (auto simp: NthOrderElasticTensor_new_def odd_iff_mod_2_eq_one)

theorem C7_witness:
  "NthOrderElasticTensor_new Tensor_new (\<lambda>obj tol. False)
       \<lparr>shape = [3, 3, 3], entries = replicate 27 0\<rparr> None (1 / 10^4) = Inl OddRank
   \<and> NthOrderElasticTensor_new Tensor_new (\<lambda>obj tol. False)
       \<lparr>shape = [3, 3, 3, 3], entries = replicate 81 0\<rparr> (Some 4) (1 / 10^4)
     = Inr (\<lparr>shape = [3, 3, 3, 3], entries = replicate 81 0, rank = 4\<rparr>, [NotVoigtSymmetric])"
proof -
  let ?a3 = "\<lparr>shape = [3, 3, 3], entries = replicate 27 (0::real)\<rparr>"
  let ?a4 = "\<lparr>shape = [3, 3, 3, 3], entries = replicate 81 (0::real)\<rparr>"
  let ?o3 = "\<lparr>shape = [3, 3, 3], entries = replicate 27 (0::real), rank = 3\<rparr>"
  let ?o4 = "\<lparr>shape = [3, 3, 3, 3], entries = replicate 81 (0::real), rank = 4\<rparr>"
  have b3: "Tensor_new ?a3 None = Inr ?o3"
    by (simp add: Tensor_new_def ndarray.extend_def tensor.fields_def)
  have b4: "Tensor_new ?a4 (Some 4) = Inr ?o4"
    by (simp add: Tensor_new_def ndarray.extend_def tensor.fields_def)
  have "NthOrderElasticTensor_new Tensor_new (\<lambda>obj tol. False) ?a3 None (1 / 10^4) = Inl OddRank"
    using C7_odd_rank_fails_asymmetry_warns
      [of Tensor_new ?a3 None "\<lambda>obj tol. False" "1 / 10^4"]
      b3 by simp
  moreover
  have "NthOrderElasticTensor_new Tensor_new (\<lambda>obj tol. False) ?a4 (Some 4) (1 / 10^4)
          = Inr (?o4, [NotVoigtSymmetric])"
    using C7_odd_rank_fails_asymmetry_warns
      [of Tensor_new ?a4 "Some 4" "\<lambda>obj tol. False" "1 / 10^4"]
      b4 by simp
  ultimately show ?thesis by simp
qed

lemma map_of_dict_set: "map_of (dict_set d k v) = (map_of d)(k \<mapsto> v)"
  by (induction d) (auto simp: fun_eq_iff)

lemma map_of_dict_update: "map_of (dict_update d kvs) = map_of d ++ map_of (rev kvs)"
  by (induction kvs arbitrary: d) (auto simp: map_of_dict_set fun_eq_iff map_add_def split: option.splits)

subsection \<open>The guard on unphysical moduli\<close>

lemma raise_if_unphysical_neg:
  "k_vrh t < 0 \<or> g_vrh t < 0 \<Longrightarrow> raise_if_unphysical f t s = Inl Unphysical"
  by (simp add: raise_if_unphysical_def)

lemma getattr_cases:
  assumes "getattr c p = Some f"
  shows "f \<in> {trans_v, long_v, snyder_ac, snyder_opt, snyder_total, clarke_thermalcond c,
              cahill_thermalcond, debye_temperature}"
  using assms unfolding getattr_def
  by (simp split: if_splits)

lemma guarded_methods:
  assumes "k_vrh t < 0 \<or> g_vrh t < 0"
  shows "trans_v t s = Inl Unphysical" "long_v t s = Inl Unphysical"
    "snyder_ac t s = Inl Unphysical" "snyder_opt t s = Inl Unphysical"
    "snyder_total t s = Inl Unphysical" "clarke_thermalcond c t s = Inl Unphysical"
    "cahill_thermalcond t s = Inl Unphysical" "debye_temperature t s = Inl Unphysical"
    "agne_diffusive_thermalcond t s = Inl Unphysical"
  unfolding trans_v_def long_v_def snyder_ac_def snyder_opt_def snyder_total_def
    clarke_thermalcond_def cahill_thermalcond_def debye_temperature_def
    agne_diffusive_thermalcond_def
  by (rule raise_if_unphysical_neg [OF assms])+

lemma getattr_guarded:
  assumes "k_vrh t < 0 \<or> g_vrh t < 0" and "getattr c p = Some f"
  shows "f t s = Inl Unphysical"
  using getattr_cases [OF assms(2)] guarded_methods [OF assms(1)] by auto

lemma getattr_s_props: "p \<in> set s_props \<Longrightarrow> \<exists>f. getattr c p = Some f"
  by (auto simp: s_props_def getattr_def)

lemma property_dict_keys:
  "map fst (property_dict c t) =
     [''k_voigt'', ''k_reuss'', ''k_vrh'', ''g_voigt'', ''g_reuss'', ''g_vrh'',
      ''universal_anisotropy'', ''homogeneous_poisson'', ''y_mod'']"
  by (simp add: property_dict_def)

lemma s_props_fresh:
  "list_all (\<lambda>p. p \<noteq> ''structure'' \<and> p \<notin> set
     [''k_voigt'', ''k_reuss'', ''k_vrh'', ''g_voigt'', ''g_reuss'', ''g_vrh'',
      ''universal_anisotropy'', ''homogeneous_poisson'', ''y_mod'']) s_props"
  by code_simp

lemma s_props_not_base:
  assumes "p \<in> set s_props"
  shows "p \<noteq> ''structure''" and "map_of (rev (property_dict c t)) p = None"
proof -
  from s_props_fresh assms
  have *: "p \<noteq> ''structure'' \<and> p \<notin> set (map fst (property_dict c t))"
    unfolding property_dict_keys list_all_iff by blast
  then show "p \<noteq> ''structure''" by simp
  from * have "p \<notin> fst ` set (rev (property_dict c t))" by simp
  then show "map_of (rev (property_dict c t)) p = None"
    by (simp only: map_of_eq_None_iff not_False_eq_True)
qed

lemma map_of_fromkeys: "p \<in> set ps \<Longrightarrow> map_of (map (\<lambda>p. (p, PNone)) ps) p = Some PNone"
  by (induction ps) auto

lemma ignored_dict:
  assumes "k_vrh t < 0 \<or> g_vrh t < 0"
  shows "\<exists>d. get_structure_property_dict c t s ibp True = Inr d \<and>
             (\<forall>p \<in> set s_props. map_of d p = Some PNone)"
proof -
  let ?d0 = "dict_set (map (\<lambda>p. (p, PNone)) s_props) ''structure'' (PStructure s)"
  let ?d = "if ibp then dict_update ?d0 (property_dict c t) else ?d0"
  have eq: "get_structure_property_dict c t s ibp True = Inr ?d"
    using assms by (simp add: get_structure_property_dict_def ebind_def Let_def)
  have "map_of ?d p = Some PNone" if "p \<in> set s_props" for p
    using s_props_not_base(1) [OF that] s_props_not_base(2) [OF that, where c = c and t = t]
      map_of_fromkeys [OF that]
    by (simp add: map_of_dict_update map_of_dict_set map_add_def)
  with eq show ?thesis by blast
qed

lemma strict_dict:
  assumes "k_vrh t < 0 \<or> g_vrh t < 0"
  shows "get_structure_property_dict c t s ibp False = Inl Unphysical"
  using guarded_methods(1) [OF assms, of s]
  by (simp add: get_structure_property_dict_def s_props_def getattr_def ebind_def)

text \<open>
  Claim C8. For a second-order elastic tensor whose \<^verbatim>\<open>k_vrh\<close> or \<^verbatim>\<open>g_vrh\<close> is
  negative, and any structure: \<^verbatim>\<open>trans_v\<close> raises the error of the guard, and so does
  every method \<^verbatim>\<open>get_structure_property_dict\<close> looks up for a name of
  \<^verbatim>\<open>s_props\<close> (the guard is uniform); by default
  \<^verbatim>\<open>get_structure_property_dict\<close> raises that error too, and with
  \<^verbatim>\<open>ignore_errors=True\<close> it returns a dict that maps every name of
  \<^verbatim>\<open>s_props\<close>, \<^verbatim>\<open>trans_v\<close> among them, to None.
\<close>

theorem C8_unphysical_guard:
  assumes "k_vrh t < 0 \<or> g_vrh t < 0"
  shows "trans_v t s = Inl Unphysical
       \<and> ''trans_v'' \<in> set s_props
       \<and> (\<forall>p \<in> set s_props. \<exists>f. getattr c p = Some f \<and> f t s = Inl Unphysical)
       \<and> get_structure_property_dict c t s ibp False = Inl Unphysical
       \<and> (\<exists>d. get_structure_property_dict c t s ibp True = Inr d \<and>
              (\<forall>p \<in> set s_props. map_of d p = Some PNone))"
proof -
  have "\<exists>f. getattr c p = Some f \<and> f t s = Inl Unphysical" if "p \<in> set s_props" for p
    using getattr_s_props [OF that, of c] getattr_guarded [OF assms] by blast
  then show ?thesis
    using guarded_methods(1) [OF assms] strict_dict [OF assms] ignored_dict [OF assms]
    by (simp add: s_props_def)
qed

theorem C8_witness:
  "(k_vrh unphysical_tensor < 0 \<or> g_vrh unphysical_tensor < 0)
   \<and> trans_v unphysical_tensor some_structure = Inl Unphysical
   \<and> get_structure_property_dict 160 unphysical_tensor some_structure True False = Inl Unphysical
   \<and> (\<exists>d. get_structure_property_dict 160 unphysical_tensor some_structure True True = Inr d
          \<and> map_of d ''trans_v'' = Some PNone \<and> map_of d ''debye_temperature'' = Some PNone)"
proof -
  have "k_vrh unphysical_tensor = - 1 / 3"
    by (simp add: k_vrh_def k_voigt_def k_reuss_def unphysical_tensor_def neg_identity_def
        mean_def total_def upper_left_def upt_conv_Cons)
  then have h: "k_vrh unphysical_tensor < 0 \<or> g_vrh unphysical_tensor < 0" by simp
  show ?thesis
    using h C8_unphysical_guard [OF h, of some_structure 160 True]
    by (auto simp: s_props_def)
qed

subsection \<open>Equilibrium stress\<close>

lemma isclose_refl: "isclose a a"
  by (simp add: isclose_def list_all2_same)

lemma list_all2_symP:
  assumes "\<And>x y. P x y \<Longrightarrow> P y x" and "list_all2 P xs ys"
  shows "list_all2 P ys xs"
  using assms(2) by (auto simp: list_all2_conv_all_nth intro: assms(1))

lemma isclose_sym: "isclose a b = isclose b a"
proof -
  have "isclose v u" if "isclose u v" for u v
    using that unfolding isclose_def
    by (rule list_all2_symP [rotated]) (rule list_all2_symP, simp_all add: abs_minus_commute)
  then show ?thesis by blast
qed

lemma find_eq_stress_first:
  assumes "length strains = length stresses"
    and "zero_strain_stresses strains stresses tol \<noteq> []"
    and "\<forall>s \<in> set (zero_strain_stresses strains stresses tol).
           isclose s (hd (zero_strain_stresses strains stresses tol))"
  shows "find_eq_stress strains stresses tol = Inr (hd (zero_strain_stresses strains stresses tol), [])"
  using assms by (simp add: find_eq_stress_def Let_def list_all_iff)

lemma find_eq_stress_ambiguous:
  assumes "length strains = length stresses"
    and "s \<in> set (zero_strain_stresses strains stresses tol)"
    and "\<not> isclose s (hd (zero_strain_stresses strains stresses tol))"
  shows "find_eq_stress strains stresses tol = Inl AmbiguousEqStress"
proof -
  let ?zs = "zero_strain_stresses strains stresses tol"
  from assms(2) have ne: "?zs \<noteq> []" by auto
  have "length ?zs > 1"
  proof (rule ccontr)
    assume "\<not> length ?zs > 1"
    with ne have "?zs = [hd ?zs]" by (cases ?zs) auto
    with assms(2) have "s = hd ?zs" by (metis empty_iff empty_set set_ConsD)
    with assms(3) isclose_refl show False by simp
  qed
  moreover have "\<not> list_all (\<lambda>s. isclose s (hd ?zs)) ?zs"
    using assms(2,3) by (auto simp: list_all_iff)
  ultimately show ?thesis
    using assms(1) ne by (simp add: find_eq_stress_def Let_def)
qed

lemma find_eq_stress_none:
  assumes "length strains = length stresses"
    and "zero_strain_stresses strains stresses tol = []"
  shows "find_eq_stress strains stresses tol = Inr (zeros33, [NoEqState])"
  using assms by (simp add: find_eq_stress_def)

text \<open>
  Two of three zero-strain samples differ beyond 1e-8, yet each agrees with the first:
  the first stress is returned and no error is raised.
\<close>

theorem C5_counterexample:
  "all_below (1 / 10^10) zeros33
   \<and> zero_strain_stresses [zeros33, zeros33, zeros33] [zeros33, stress_a, stress_b] (1 / 10^10)
       = [zeros33, stress_a, stress_b]
   \<and> \<not> isclose stress_a stress_b
   \<and> find_eq_stress [zeros33, zeros33, zeros33] [zeros33, stress_a, stress_b] (1 / 10^10)
       = Inr (zeros33, [])"
  by code_simp

text \<open>
  Claim C5, as the code has it. With the stresses of the samples whose strain entries
  are all below the tolerance: when there is at least one and each agrees with the first
  within 1e-8 in every component, the first is returned without a warning; when one of
  them differs from the first beyond 1e-8 in a component, the ambiguity error is raised,
  in particular when there are exactly two and they differ; when there is none, the zero
  stress is returned with the warning.
\<close>

theorem C5_find_eq_stress:
  assumes "length strains = length stresses"
  shows "(zero_strain_stresses strains stresses tol \<noteq> [] \<and>
          (\<forall>s \<in> set (zero_strain_stresses strains stresses tol).
             isclose s (hd (zero_strain_stresses strains stresses tol))) \<longrightarrow>
          find_eq_stress strains stresses tol
            = Inr (hd (zero_strain_stresses strains stresses tol), []))
       \<and> ((\<exists>s \<in> set (zero_strain_stresses strains stresses tol).
             \<not> isclose s (hd (zero_strain_stresses strains stresses tol))) \<longrightarrow>
          find_eq_stress strains stresses tol = Inl AmbiguousEqStress)
       \<and> (\<forall>a b. zero_strain_stresses strains stresses tol = [a, b] \<and> \<not> isclose a b \<longrightarrow>
          find_eq_stress strains stresses tol = Inl AmbiguousEqStress)
       \<and> (zero_strain_stresses strains stresses tol = [] \<longrightarrow>
          find_eq_stress strains stresses tol = Inr (zeros33, [NoEqState]))"
proof -
  have two: "find_eq_stress strains stresses tol = Inl AmbiguousEqStress"
    if "zero_strain_stresses strains stresses tol = [a, b]" "\<not> isclose a b" for a b
    using find_eq_stress_ambiguous [OF assms, of b tol] that isclose_sym [of a b] by simp
  show ?thesis
    using find_eq_stress_first [OF assms] find_eq_stress_ambiguous [OF assms]
      find_eq_stress_none [OF assms] two
    by blast
qed

theorem C5_witness:
  "find_eq_stress [zeros33, zeros33] [stress_a, stress_a] (1 / 10^10) = Inr (stress_a, [])
   \<and> find_eq_stress [zeros33, zeros33] [stress_a, stress_b] (1 / 10^10) = Inl AmbiguousEqStress
   \<and> find_eq_stress [stress_a] [stress_b] (1 / 10^10) = Inr (zeros33, [NoEqState])"
proof -
  have z1: "zero_strain_stresses [zeros33, zeros33] [stress_a, stress_a] (1 / 10^10) = [stress_a, stress_a]"
    by code_simp
  have z2: "zero_strain_stresses [zeros33, zeros33] [stress_a, stress_b] (1 / 10^10) = [stress_a, stress_b]"
    by code_simp
  have z3: "zero_strain_stresses [stress_a] [stress_b] (1 / 10^10) = []"
    by code_simp
  have n: "\<not> isclose stress_a stress_b" by code_simp
  have "find_eq_stress [zeros33, zeros33] [stress_a, stress_a] (1 / 10^10) = Inr (stress_a, [])"
    using C5_find_eq_stress [of "[zeros33, zeros33]" "[stress_a, stress_a]" "1 / 10^10"] z1 isclose_refl by simp
  moreover
  have "find_eq_stress [zeros33, zeros33] [stress_a, stress_b] (1 / 10^10) = Inl AmbiguousEqStress"
    using C5_find_eq_stress [of "[zeros33, zeros33]" "[stress_a, stress_b]" "1 / 10^10"] z2 n by simp
  moreover
  have "find_eq_stress [stress_a] [stress_b] (1 / 10^10) = Inr (zeros33, [NoEqState])"
    using C5_find_eq_stress [of "[stress_a]" "[stress_b]" "1 / 10^10"] z3 by simp
  ultimately show ?thesis by simp
qed

subsection \<open>Strain-state keys\<close>

lemma argmin_less: "xs \<noteq> [] \<Longrightarrow> argmin xs < length xs"
  by (induction xs rule: argmin.induct) (auto simp: Let_def)

lemma argmin_le: "i < length xs \<Longrightarrow> xs ! argmin xs \<le> xs ! i"
proof (induction xs arbitrary: i rule: argmin.induct)
  case 1
  then show ?case by simp
next
  case (2 x)
  then show ?case by simp
next
  case (3 x y ys)
  show ?case
  proof (cases i)
    case 0
    then show ?thesis by (auto simp: Let_def)
  next
    case (Suc j)
    with "3.prems" have "(y # ys) ! argmin (y # ys) \<le> (y # ys) ! j"
      by (intro "3.IH") simp_all
    with Suc show ?thesis by (auto simp: Let_def)
  qed
qed

lemma length_voigt_vec: "length (voigt_vec vs m) = 6"
  by (simp add: voigt_vec_def)

lemma set_nonzero: "set (nonzero v) \<subseteq> {..<length v}"
  by (auto simp: nonzero_def)

lemma set_dict_set: "set (dict_set d k v) \<subseteq> insert (k, v) (set d)"
  by (induction d) (auto split: if_splits)

lemma mode_nth:
  assumes "mode ind v" "length v = 6" "i \<in> set ind" "i < 6"
  shows "\<bar>v ! i\<bar> > 1 / 10^10"
proof -
  from assms(1) have "map (\<lambda>x. \<bar>x\<bar> > 1 / 10^10) v ! i = template ind ! i"
    by (simp add: mode_def)
  with assms(2-4) show ?thesis by (simp add: template_def)
qed

lemma classify_state_key:
  assumes r: "classify_state vstrains vstresses veq srt ind = Inr (k, g)"
    and len: "\<forall>v \<in> set vstrains. length v = 6"
    and ind: "set ind \<subseteq> {..<6}"
  shows "length k = 6 \<and> (\<exists>i \<in> set ind. k ! i = 1)"
proof -
  let ?matched = "filter (\<lambda>(e, s). mode ind e) (zip vstrains vstresses)"
  let ?ms = "map fst ?matched"
  let ?l = "last ?ms"
  let ?taken = "map (\<lambda>i. ?l ! i) ind"
  let ?j = "argmin (map abs ?taken)"
  from r have ne: "?ms \<noteq> []" and ine: "ind \<noteq> []"
    and k: "k = map (\<lambda>x. x / (?taken ! ?j)) ?l"
    by (auto simp: classify_state_def Let_def split: if_splits)
  from ne have "?l \<in> set ?ms" by (rule last_in_set)
  then obtain s where "(?l, s) \<in> set ?matched" by auto
  then have m: "mode ind ?l" and "?l \<in> set vstrains"
    by (auto dest: set_zip_leftD)
  with len have l6: "length ?l = 6" by blast
  from ine have j: "?j < length ind" using argmin_less [of "map abs ?taken"] by simp
  then have mem: "ind ! ?j \<in> set ind" by simp
  with ind have lt: "ind ! ?j < 6" by auto
  from mode_nth [OF m l6 mem lt] have nz: "?l ! (ind ! ?j) \<noteq> 0" by auto
  from j have "?taken ! ?j = ?l ! (ind ! ?j)" by simp
  with k l6 lt nz have "k ! (ind ! ?j) = 1" by simp
  with mem k l6 show ?thesis by auto
qed

lemma classify_all_keys:
  assumes "classify_all vstrains vstresses veq srt inds d = Inr d'"
    and "\<forall>v \<in> set vstrains. length v = 6"
    and "\<forall>ind \<in> set inds. set ind \<subseteq> {..<6}"
    and "\<forall>(k, g) \<in> set d. length k = 6 \<and> (\<exists>i<6. k ! i = 1)"
  shows "\<forall>(k, g) \<in> set d'. length k = 6 \<and> (\<exists>i<6. k ! i = 1)"
  using assms
proof (induction inds arbitrary: d)
  case Nil
  then show ?case by simp
next
  case (Cons ind inds)
  from Cons.prems(1) obtain k g where
    st: "classify_state vstrains vstresses veq srt ind = Inr (k, g)"
    and rest: "classify_all vstrains vstresses veq srt inds (dict_set d k g) = Inr d'"
    by (auto split: sum.splits)
  from Cons.prems(3) have ind: "set ind \<subseteq> {..<6}" by simp
  from classify_state_key [OF st Cons.prems(2) ind] ind
  have "length k = 6 \<and> (\<exists>i<6. k ! i = 1)" by blast
  with Cons.prems(4) set_dict_set [of d k g]
  have "\<forall>(k, g) \<in> set (dict_set d k g). length k = 6 \<and> (\<exists>i<6. k ! i = 1)"
    by auto
  from Cons.IH [OF rest Cons.prems(2) _ this] Cons.prems(3) show ?case by simp
qed


lemma get_strain_state_dict_keys:
  assumes "get_strain_state_dict vse vss strains stresses eq_stress tol add_eq srt = Inr (d, ws)"
  shows "\<forall>(k, g) \<in> set d. length k = 6 \<and> (\<exists>i<6. k ! i = 1)"
proof -
  let ?vs = "map (\<lambda>s. voigt_vec vse (zeroed tol s)) strains"
  let ?vt = "map (\<lambda>s. voigt_vec vss (zeroed tol s)) stresses"
  from assms obtain veq where
    ca: "classify_all ?vs ?vt veq srt (remdups (map nonzero ?vs)) [] = Inr d"
    by (auto simp: get_strain_state_dict_def ebind_def Let_def split: sum.splits if_splits option.splits)
  have len: "\<forall>v \<in> set ?vs. length v = 6" by (auto simp: length_voigt_vec)
  have "\<forall>ind \<in> set (remdups (map nonzero ?vs)). set ind \<subseteq> {..<6}"
    using set_nonzero by (fastforce simp: length_voigt_vec)
  from classify_all_keys [OF ca len this] show ?thesis by simp
qed

lemma map_fst_matched:
  "length xs = length ys \<Longrightarrow> map fst (filter (\<lambda>(e, s). P e) (zip xs ys)) = filter P xs"
  by (induction xs ys rule: list_induct2) auto






subsection \<open>An explicit equilibrium stress\<close>

lemma classify_state_errors:
  "classify_state vstrains vstresses veq srt ind = Inl e \<Longrightarrow>
     e = BooleanIndexMismatch \<or> e = IndexOutOfRange \<or> e = EmptyArgmin"
  by (auto simp: classify_state_def Let_def split: if_splits)

lemma classify_all_errors:
  "classify_all vstrains vstresses veq srt inds d = Inl e \<Longrightarrow>
     e = BooleanIndexMismatch \<or> e = IndexOutOfRange \<or> e = EmptyArgmin"
proof (induction inds arbitrary: d)
  case Nil
  then show ?case by simp
next
  case (Cons ind inds)
  then show ?case
    by (auto split: sum.splits dest: classify_state_errors)
qed

lemma classify_state_eq:
  assumes "classify_state vstrains vstresses (Some q) srt ind = Inr (k, g)"
  shows "(replicate 6 0, q) \<in> set (zip (data_strains g) (data_stresses g))"
proof -
  let ?matched = "filter (\<lambda>(e, s). mode ind e) (zip vstrains vstresses)"
  let ?pairs = "zip (map fst ?matched) (map snd ?matched) @ [(replicate 6 0, q)]"
  let ?sorted = "if srt then sort_key (\<lambda>(e, s). e ! hd ind) ?pairs else ?pairs"
  from assms have g: "g = \<lparr>data_strains = map fst ?sorted, data_stresses = map snd ?sorted\<rparr>"
    by (auto simp: classify_state_def Let_def split: if_splits)
  have "(replicate 6 0, q) \<in> set ?sorted" by simp
  moreover have "zip (data_strains g) (data_stresses g) = ?sorted"
    unfolding g by (simp only: strain_data.simps zip_map_fst_snd)
  ultimately show ?thesis by simp
qed

lemma classify_all_eq:
  assumes "classify_all vstrains vstresses (Some q) srt inds d = Inr d'"
    and "\<forall>(k, g) \<in> set d. (replicate 6 0, q) \<in> set (zip (data_strains g) (data_stresses g))"
  shows "\<forall>(k, g) \<in> set d'. (replicate 6 0, q) \<in> set (zip (data_strains g) (data_stresses g))"
  using assms
proof (induction inds arbitrary: d)
  case Nil
  then show ?case by simp
next
  case (Cons ind inds)
  from Cons.prems(1) obtain k g where
    st: "classify_state vstrains vstresses (Some q) srt ind = Inr (k, g)"
    and rest: "classify_all vstrains vstresses (Some q) srt inds (dict_set d k g) = Inr d'"
    by (auto split: sum.splits)
  from classify_state_eq [OF st] Cons.prems(2) set_dict_set [of d k g]
  have "\<forall>(k, g) \<in> set (dict_set d k g).
          (replicate 6 0, q) \<in> set (zip (data_strains g) (data_stresses g))"
    by auto
  from Cons.IH [OF rest this] show ?case .
qed

text \<open>
  Claim C10. With an explicit \<^verbatim>\<open>eq_stress\<close>, \<^verbatim>\<open>get_strain_state_dict\<close> never
  raises the ambiguity error of the equilibrium search, whatever the samples are, and
  never passes on its warning; when it returns a dictionary and \<^verbatim>\<open>add_eq\<close> holds,
  every group holds the zero strain paired with the Voigt form of the supplied stress.
\<close>

theorem C10_explicit_eq_stress:
  "get_strain_state_dict vse vss strains stresses (Some q) tol add_eq srt \<noteq> Inl AmbiguousEqStress
   \<and> (\<forall>d ws. get_strain_state_dict vse vss strains stresses (Some q) tol add_eq srt = Inr (d, ws)
        \<longrightarrow> ws = [] \<and>
            (add_eq \<longrightarrow> (\<forall>(k, g) \<in> set d.
               (replicate 6 0, voigt_vec vss q) \<in> set (zip (data_strains g) (data_stresses g)))))"
proof -
  let ?vs = "map (\<lambda>s. voigt_vec vse (zeroed tol s)) strains"
  let ?vt = "map (\<lambda>s. voigt_vec vss (zeroed tol s)) stresses"
  let ?veq = "if add_eq then Some (voigt_vec vss q) else None"
  let ?r = "classify_all ?vs ?vt ?veq srt (remdups (map nonzero ?vs)) []"
  have eq: "get_strain_state_dict vse vss strains stresses (Some q) tol add_eq srt
             = ebind ?r (\<lambda>d. Inr (d, []))"
    by (simp add: get_strain_state_dict_def ebind_def Let_def)
  have "ebind ?r (\<lambda>d. Inr (d, [])) \<noteq> Inl AmbiguousEqStress"
    using classify_all_errors [of ?vs ?vt ?veq srt _ "[]"]
    by (cases ?r) (auto simp: ebind_def)
  moreover have "ws = [] \<and> (add_eq \<longrightarrow> (\<forall>(k, g) \<in> set d.
               (replicate 6 0, voigt_vec vss q) \<in> set (zip (data_strains g) (data_stresses g))))"
    if "ebind ?r (\<lambda>d. Inr (d, [])) = Inr (d, ws)" for d ws
  proof -
    from that have r: "?r = Inr d" and "ws = []"
      by (cases ?r; simp add: ebind_def)+
    moreover have "\<forall>(k, g) \<in> set d.
               (replicate 6 0, voigt_vec vss q) \<in> set (zip (data_strains g) (data_stresses g))"
      if add_eq
      using classify_all_eq [of ?vs ?vt "voigt_vec vss q" srt _ "[]" d] r that by simp
    ultimately show ?thesis by blast
  qed
  ultimately show ?thesis unfolding eq by blast
qed

theorem C10_witness:
  "find_eq_stress [strain_big, strain_tiny_pos, strain_tiny_neg] [stress_c, stress_a, stress_b]
       (1 / 10^10) = Inl AmbiguousEqStress
   \<and> get_strain_state_dict strain_vscale stress_vscale
         [strain_big, strain_tiny_pos, strain_tiny_neg] [stress_c, stress_a, stress_b]
         None (1 / 10^12) True True = Inl AmbiguousEqStress
   \<and> get_strain_state_dict strain_vscale stress_vscale
         [strain_big, strain_tiny_pos, strain_tiny_neg] [stress_c, stress_a, stress_b]
         (Some stress_d) (1 / 10^12) True True \<noteq> Inl AmbiguousEqStress
   \<and> get_strain_state_dict strain_vscale stress_vscale
         [strain_big, strain_tiny_pos, strain_tiny_neg] [stress_c, stress_a, stress_b]
         (Some stress_d) (1 / 10^12) True True
       = Inr ([([1, 0, 0, 0, 0, 0],
                \<lparr>data_strains = [[0, 0, 0, 0, 0, 0], [1 / 100, 0, 0, 0, 0, 0]],
                 data_stresses = [[4, 5, 6, 0, 0, 0], [1, 2, 3, 0, 0, 0]]\<rparr>)], [])"
proof -
  have "find_eq_stress [strain_big, strain_tiny_pos, strain_tiny_neg] [stress_c, stress_a, stress_b]
       (1 / 10^10) = Inl AmbiguousEqStress"
    by code_simp
  moreover have "get_strain_state_dict strain_vscale stress_vscale
         [strain_big, strain_tiny_pos, strain_tiny_neg] [stress_c, stress_a, stress_b]
         None (1 / 10^12) True True = Inl AmbiguousEqStress"
    by code_simp
  moreover have "get_strain_state_dict strain_vscale stress_vscale
         [strain_big, strain_tiny_pos, strain_tiny_neg] [stress_c, stress_a, stress_b]
         (Some stress_d) (1 / 10^12) True True
       = Inr ([([1, 0, 0, 0, 0, 0],
                \<lparr>data_strains = [[0, 0, 0, 0, 0, 0], [1 / 100, 0, 0, 0, 0, 0]],
                 data_stresses = [[4, 5, 6, 0, 0, 0], [1, 2, 3, 0, 0, 0]]\<rparr>)], [])"
    by code_simp
  ultimately show ?thesis
    using C10_explicit_eq_stress [of strain_vscale stress_vscale
        "[strain_big, strain_tiny_pos, strain_tiny_neg]" "[stress_c, stress_a, stress_b]"
        stress_d "1 / 10^12" True True]
    by simp
qed

subsection \<open>Groups of samples\<close>

text \<open>
  What the loop body puts into a group when sorting is on: the samples the mask selects
  and the equilibrium sample when there is one, in ascending order of the entry at the
  first index of the index set.
\<close>

lemma classify_state_group:
  assumes "classify_state vstrains vstresses veq True ind = Inr (k, g)"
  shows "sorted (map (\<lambda>e. e ! hd ind) (data_strains g))"
    and "mset (data_strains g) =
           mset (filter (mode ind) vstrains) + (if veq = None then {#} else {#replicate 6 0#})"
proof -
  let ?matched = "filter (\<lambda>(e, s). mode ind e) (zip vstrains vstresses)"
  let ?pairs = "zip (map fst ?matched) (map snd ?matched)
                  @ (case veq of None \<Rightarrow> [] | Some q \<Rightarrow> [(replicate 6 0, q)])"
  let ?sorted = "sort_key (\<lambda>(e, s). e ! hd ind) ?pairs"
  from assms have g: "data_strains g = map fst ?sorted" and len: "length vstresses = length vstrains"
    by (auto simp: classify_state_def Let_def split: if_splits)
  have "map (\<lambda>e. e ! hd ind) (map fst ?sorted) = map (\<lambda>(e, s). e ! hd ind) ?sorted"
    by (simp add: case_prod_beta comp_def)
  then show "sorted (map (\<lambda>e. e ! hd ind) (data_strains g))"
    unfolding g by (simp only: sorted_sort_key)
  have 1: "mset (map fst ?sorted) = mset (map fst ?pairs)"
    by (simp only: mset_map mset_sort)
  have 2: "map fst ?pairs = map fst ?matched
                   @ (case veq of None \<Rightarrow> [] | Some q \<Rightarrow> [replicate 6 0])"
    by (simp only: zip_map_fst_snd map_append) (simp split: option.splits)
  have 3: "map fst ?matched = filter (mode ind) vstrains"
    using len by (simp add: map_fst_matched)
  have 4: "mset (filter (mode ind) vstrains
                   @ (case veq of None \<Rightarrow> [] | Some q \<Rightarrow> [replicate 6 0]))
        = mset (filter (mode ind) vstrains) + (if veq = None then {#} else {#replicate 6 0#})"
    by (simp split: option.splits)
  show "mset (data_strains g) =
           mset (filter (mode ind) vstrains) + (if veq = None then {#} else {#replicate 6 0#})"
    unfolding g 1 2 unfolding 3 4 ..
qed

text \<open>
  Claim C4 at a tolerance below the fixed threshold of the mask. With
  \<^verbatim>\<open>tol = 1e-12\<close> the reduced strains (0.01, 0.02, 0, 0, 0, 0) and
  (0.01, 5e-11, 0, 0, 0, 0) both have the nonzero pattern (0, 1), yet the group of that
  index set holds only the first of them (beside the equilibrium sample); and when the
  second is the only sample, no sample matches its own index set and the read of the
  last matched sample fails.
\<close>

theorem C4_hard_coded_threshold:
  "nonzero (voigt_vec strain_vscale (zeroed (1 / 10^12) strain_two)) = [0, 1]
   \<and> nonzero (voigt_vec strain_vscale (zeroed (1 / 10^12) strain_two_tiny)) = [0, 1]
   \<and> get_strain_state_dict strain_vscale stress_vscale [strain_two, strain_two_tiny]
         [stress_c, stress_d] (Some zeros33) (1 / 10^12) True True
       = Inr ([([1, 2, 0, 0, 0, 0],
                \<lparr>data_strains = [[0, 0, 0, 0, 0, 0], [1 / 100, 2 / 100, 0, 0, 0, 0]],
                 data_stresses = [[0, 0, 0, 0, 0, 0], [1, 2, 3, 0, 0, 0]]\<rparr>)], [])
   \<and> get_strain_state_dict strain_vscale stress_vscale [strain_two_tiny]
         [stress_d] (Some zeros33) (1 / 10^12) True True = Inl IndexOutOfRange"
  by code_simp

subsection \<open>Fit from independent strains\<close>

lemma map_of_filter_keys:
  "k \<in> S \<Longrightarrow> map_of (filter (\<lambda>(k', g). k' \<in> S) d) k = map_of d k"
  by (induction d) auto

lemma length_strain_states: "length strain_states = 6"
  by (simp add: strain_states_def)

lemma c_ij_of_restrict:
  "c_ij_of pf (filter (\<lambda>(k, g). k \<in> set strain_states) d) = c_ij_of pf d"
proof -
  have "map_of (filter (\<lambda>(k, g). k \<in> set strain_states) d) (strain_states ! ii)
          = map_of d (strain_states ! ii)" if "ii < 6" for ii
    using that by (intro map_of_filter_keys nth_mem) (simp add: length_strain_states)
  then show ?thesis
    unfolding c_ij_of_def by (intro map_cong refl) simp
qed

text \<open>
  Claim C6. Let the classification return a dictionary. When one of the six rows of the
  identity is not a key, \<^verbatim>\<open>from_independent_strains\<close> raises the error that
  carries the set of the missing states, which is not empty. When all six are keys and
  there are other keys beside them, the warning is added to the warnings so far, the
  matrix of slopes is the one the six states alone give (the other keys are not read),
  and the result is what building the tensor from that matrix gives.
\<close>

theorem C6_missing_and_extra_states:
  assumes "get_strain_state_dict vse vss strains stresses eq_stress (1 / 10^10) True True
             = Inr (d, ws)"
  shows "(\<not> set strain_states \<subseteq> fst ` set d \<longrightarrow>
            from_independent_strains pf fv z vse vss strains stresses eq_stress vasp tol
              = Inl (MissingStates (set strain_states - fst ` set d))
            \<and> set strain_states - fst ` set d \<noteq> {})
       \<and> (set strain_states \<subseteq> fst ` set d \<and> fst ` set d - set strain_states \<noteq> {} \<longrightarrow>
            c_ij_of pf d = c_ij_of pf (filter (\<lambda>(k, g). k \<in> set strain_states) d)
            \<and> from_independent_strains pf fv z vse vss strains stresses eq_stress vasp tol
                = ebind (fv (if vasp then map (map (\<lambda>x. x * (- 1 / 10))) (c_ij_of pf d)
                             else c_ij_of pf d))
                    (\<lambda>(instance, ws'). Inr (z tol instance, ws @ [ExtraStrainStates] @ ws')))"
proof -
  have "from_independent_strains pf fv z vse vss strains stresses eq_stress vasp tol
          = fit_states pf fv z d ws vasp tol"
    using assms by (simp add: from_independent_strains_def ebind_def)
  then show ?thesis
    by (simp add: fit_states_def Let_def c_ij_of_restrict)
qed

theorem C6_witness:
  "from_independent_strains lstsq_slope voigt_instance zeroed strain_vscale stress_vscale
       [strain_big, strain_two] [stress_d, stress_c] None False (1 / 10^10)
     = Inl (MissingStates {[0, 1, 0, 0, 0, 0], [0, 0, 1, 0, 0, 0], [0, 0, 0, 1, 0, 0],
                           [0, 0, 0, 0, 1, 0], [0, 0, 0, 0, 0, 1]})
   \<and> from_independent_strains lstsq_slope voigt_instance zeroed strain_vscale stress_vscale
       (axis_strains @ [strain_two]) (axis_stresses @ [stress_c]) None False (1 / 10^10)
     = Inr ([[200, 100, 100, 0, 0, 0], [100, 200, 100, 0, 0, 0], [100, 100, 200, 0, 0, 0],
             [0, 0, 0, 100, 0, 0], [0, 0, 0, 0, 100, 0], [0, 0, 0, 0, 0, 100]],
            [NoEqState, ExtraStrainStates])"
proof -
  have e1: "get_strain_state_dict strain_vscale stress_vscale
               [strain_big, strain_two] [stress_d, stress_c] None (1 / 10^10) True True
              = Inr (two_dict, [NoEqState])" by code_simp
  have h1: "\<not> set strain_states \<subseteq> fst ` set two_dict" by code_simp
  have v1: "set strain_states - fst ` set two_dict
              = {[0, 1, 0, 0, 0, 0], [0, 0, 1, 0, 0, 0], [0, 0, 0, 1, 0, 0],
                 [0, 0, 0, 0, 1, 0], [0, 0, 0, 0, 0, 1]}" by code_simp
  have e2: "get_strain_state_dict strain_vscale stress_vscale
               (axis_strains @ [strain_two]) (axis_stresses @ [stress_c]) None (1 / 10^10) True True
              = Inr (axis_dict, [NoEqState])" by code_simp
  have h2: "set strain_states \<subseteq> fst ` set axis_dict
            \<and> fst ` set axis_dict - set strain_states \<noteq> {}" by code_simp
  have v2: "ebind (voigt_instance (if False then map (map (\<lambda>x. x * (- 1 / 10)))
                                     (c_ij_of lstsq_slope axis_dict)
                                   else c_ij_of lstsq_slope axis_dict))
              (\<lambda>(instance, ws'). Inr (zeroed (1 / 10^10) instance,
                                     [NoEqState] @ [ExtraStrainStates] @ ws'))
            = Inr ([[200, 100, 100, 0, 0, 0], [100, 200, 100, 0, 0, 0], [100, 100, 200, 0, 0, 0],
                    [0, 0, 0, 100, 0, 0], [0, 0, 0, 0, 100, 0], [0, 0, 0, 0, 0, 100]],
                   [NoEqState, ExtraStrainStates])" by code_simp
  from C6_missing_and_extra_states [OF e1, of lstsq_slope voigt_instance zeroed False "1 / 10^10"] h1
  have "from_independent_strains lstsq_slope voigt_instance zeroed strain_vscale stress_vscale
       [strain_big, strain_two] [stress_d, stress_c] None False (1 / 10^10)
     = Inl (MissingStates (set strain_states - fst ` set two_dict))" by blast
  moreover
  from C6_missing_and_extra_states [OF e2, of lstsq_slope voigt_instance zeroed False "1 / 10^10"] h2
  have "from_independent_strains lstsq_slope voigt_instance zeroed strain_vscale stress_vscale
       (axis_strains @ [strain_two]) (axis_stresses @ [stress_c]) None False (1 / 10^10)
     = ebind (voigt_instance (if False then map (map (\<lambda>x. x * (- 1 / 10)))
                                     (c_ij_of lstsq_slope axis_dict)
                                   else c_ij_of lstsq_slope axis_dict))
              (\<lambda>(instance, ws'). Inr (zeroed (1 / 10^10) instance,
                                     [NoEqState] @ [ExtraStrainStates] @ ws'))" by blast
  ultimately show ?thesis unfolding v1 v2 by (rule conjI)
qed

subsection \<open>Symbol tables\<close>



lemma length_cwr:
  "length (combinations_with_replacement pool r) = (length pool + r - 1) choose r"
proof (induction pool r rule: combinations_with_replacement.induct)
  case (1 pool)
  then show ?case by simp
next
  case (2 r)
  then show ?case by simp
next
  case (3 x xs r)
  then show ?case by (cases "length xs + r") simp_all
qed

lemma set_cwr:
  "sorted pool \<Longrightarrow> distinct pool \<Longrightarrow>
   set (combinations_with_replacement pool r)
     = {xs. length xs = r \<and> sorted xs \<and> set xs \<subseteq> set pool}"
proof (induction pool r rule: combinations_with_replacement.induct)
  case (1 pool)
  then show ?case by auto
next
  case (2 r)
  then show ?case by auto
next
  case (3 x xs r)
  from 3 have IH1: "set (combinations_with_replacement (x # xs) r)
                     = {ys. length ys = r \<and> sorted ys \<and> set ys \<subseteq> set (x # xs)}"
    and IH2: "set (combinations_with_replacement xs (Suc r))
                     = {ys. length ys = Suc r \<and> sorted ys \<and> set ys \<subseteq> set xs}"
    by auto
  from "3.prems" have lt: "\<forall>y \<in> set xs. x < y"
    by (auto simp: less_le)
  show ?case
  proof (intro set_eqI iffI)
    fix ys assume "ys \<in> set (combinations_with_replacement (x # xs) (Suc r))"
    then consider zs where "ys = x # zs" "zs \<in> set (combinations_with_replacement (x # xs) r)"
      | "ys \<in> set (combinations_with_replacement xs (Suc r))" by auto
    then show "ys \<in> {ys. length ys = Suc r \<and> sorted ys \<and> set ys \<subseteq> set (x # xs)}"
    proof cases
      case 1
      with IH1 lt show ?thesis by (auto simp: less_imp_le)
    next
      case 2
      with IH2 show ?thesis by auto
    qed
  next
    fix ys assume "ys \<in> {ys. length ys = Suc r \<and> sorted ys \<and> set ys \<subseteq> set (x # xs)}"
    then obtain y zs where ys: "ys = y # zs" and l: "length zs = r" and s: "sorted (y # zs)"
      and sub: "set (y # zs) \<subseteq> set (x # xs)" by (cases ys) auto
    show "ys \<in> set (combinations_with_replacement (x # xs) (Suc r))"
    proof (cases "y = x")
      case True
      with l s sub IH1 ys show ?thesis by auto
    next
      case False
      with sub have "y \<in> set xs" by auto
      with lt have "x < y" by blast
      with s have "\<forall>z \<in> set (y # zs). x < z" by auto
      with sub have "set (y # zs) \<subseteq> set xs" by auto
      with l s IH2 ys show ?thesis by auto
    qed
  qed
qed

lemma distinct_cwr:
  "sorted pool \<Longrightarrow> distinct pool \<Longrightarrow> distinct (combinations_with_replacement pool r)"
proof (induction pool r rule: combinations_with_replacement.induct)
  case (1 pool)
  then show ?case by simp
next
  case (2 r)
  then show ?case by simp
next
  case (3 x xs r)
  from "3.prems" have "x \<notin> set xs" by simp
  have "hd ys \<noteq> x" if "ys \<in> set (combinations_with_replacement xs (Suc r))" for ys
  proof -
    from that set_cwr [of xs "Suc r"] "3.prems"
    have "length ys = Suc r" "set ys \<subseteq> set xs" by auto
    then have "hd ys \<in> set xs" by (cases ys) auto
    with \<open>x \<notin> set xs\<close> show ?thesis by auto
  qed
  then have "set (map ((#) x) (combinations_with_replacement (x # xs) r))
               \<inter> set (combinations_with_replacement xs (Suc r)) = {}"
    by fastforce
  with 3 show ?case by (simp add: distinct_map)
qed

lemma set_permutations: "set (permutations xs) = {ys. mset ys = mset xs}"
proof (induction xs rule: permutations.induct)
  case (1 xs)
  show ?case
  proof (cases "xs = []")
    case True
    then show ?thesis by (subst permutations.simps) auto
  next
    case False
    let ?del = "\<lambda>i. take i xs @ drop (Suc i) xs"
    have IH: "set (permutations (?del i)) = {ys. mset ys = mset (?del i)}" if "i < length xs" for i
      using 1 [OF False, of i] that by simp
    have del: "mset xs = add_mset (xs ! i) (mset (?del i))" if "i < length xs" for i
      using id_take_nth_drop [OF that] by (metis mset.simps(2) mset_append union_mset_add_mset_right)
    have "set (permutations xs) = (\<Union>i \<in> {..<length xs}. (#) (xs ! i) ` set (permutations (?del i)))"
      using False by (subst permutations.simps) (auto simp: atLeast0LessThan)
    also have "\<dots> = {ys. mset ys = mset xs}"
    proof (intro set_eqI iffI)
      fix ys assume "ys \<in> (\<Union>i \<in> {..<length xs}. (#) (xs ! i) ` set (permutations (?del i)))"
      then obtain i zs where i: "i < length xs" and "ys = xs ! i # zs" "zs \<in> set (permutations (?del i))"
        by auto
      with IH [OF i] del [OF i] show "ys \<in> {ys. mset ys = mset xs}" by simp
    next
      fix ys assume "ys \<in> {ys. mset ys = mset xs}"
      then have m: "mset ys = mset xs" by simp
      with False obtain y zs where ys: "ys = y # zs" by (cases ys) auto
      with m have "y \<in> set xs" by (metis list.set_intros(1) mset_eq_setD)
      then obtain i where i: "i < length xs" "xs ! i = y" by (auto simp: in_set_conv_nth)
      with m ys del [OF i(1)] have "mset zs = mset (?del i)" by simp
      with IH [OF i(1)] have "zs \<in> set (permutations (?del i))" by simp
      with i ys show "ys \<in> (\<Union>i \<in> {..<length xs}. (#) (xs ! i) ` set (permutations (?del i)))"
        by blast
    qed
    finally show ?thesis .
  qed
qed

lemma digit_char_inj:
  assumes "m < 10" "n < 10" "digit_char m = digit_char n"
  shows "m = n"
proof -
  from assms(3) have "of_char (digit_char m) = (of_char (digit_char n) :: nat)" by simp
  then have "(48 + m) mod 256 = (48 + n) mod 256"
    unfolding digit_char_def of_char_of .
  moreover have "(48 + m) mod 256 = 48 + m" "(48 + n) mod 256 = 48 + n"
    using assms(1,2) by (simp_all only: mod_less) 
  ultimately show ?thesis by linarith
qed

lemma str_nat_small: "n < 10 \<Longrightarrow> str_nat n = [digit_char n]"
  by (subst str_nat.simps) simp

lemma concat_str_nat:
  "\<forall>n \<in> set idx. n < 10 \<Longrightarrow> concat (map str_nat idx) = map digit_char idx"
  by (induction idx) (simp_all add: str_nat_small)

lemma map_digit_char_inj:
  "\<forall>n \<in> set p. n < 10 \<Longrightarrow> \<forall>n \<in> set q. n < 10 \<Longrightarrow>
   map digit_char p = map digit_char q \<Longrightarrow> p = q"
proof (induction p arbitrary: q)
  case Nil
  then show ?case by simp
next
  case (Cons a p)
  from Cons.prems(3) obtain b q' where q: "q = b # q'" by (cases q) auto
  with Cons.prems have "digit_char a = digit_char b" "a < 10" "b < 10"
    and r: "map digit_char p = map digit_char q'" "\<forall>n \<in> set p. n < 10" "\<forall>n \<in> set q'. n < 10"
    by simp_all
  then have "a = b" by (intro digit_char_inj)
  moreover from Cons.IH [OF r(2,3,1)] have "p = q'" .
  ultimately show ?case using q by simp
qed

lemma symbol_of_inj:
  assumes "\<forall>n \<in> set p. n < 10" "\<forall>n \<in> set q. n < 10" "symbol_of p = symbol_of q"
  shows "p = q"
proof -
  from assms(3) have "concat (map str_nat p) = concat (map str_nat q)"
    by (simp add: symbol_of_def)
  then have "map digit_char p = map digit_char q"
    by (simp only: concat_str_nat [OF assms(1)] concat_str_nat [OF assms(2)])
  with assms(1,2) show ?thesis by (rule map_digit_char_inj)
qed


lemma write_perms:
  "foldl (\<lambda>c_arr perm. c_arr(perm := s)) c_arr perms p = (if p \<in> set perms then s else c_arr p)"
  by (induction perms arbitrary: c_arr) auto

lemma write_all:
  assumes "c_arr p = v \<or> (\<exists>idx \<in> set indices. p \<in> set (permutations idx))"
    and "\<forall>idx \<in> set indices. p \<in> set (permutations idx) \<longrightarrow> symbol_of idx = v"
  shows "foldl (\<lambda>c_arr idx.
            foldl (\<lambda>c_arr perm. c_arr(perm := symbol_of idx)) c_arr (permutations idx))
          c_arr indices p = v"
  using assms
proof (induction indices arbitrary: c_arr)
  case Nil
  then show ?case by simp
next
  case (Cons idx indices)
  let ?c = "foldl (\<lambda>c_arr perm. c_arr(perm := symbol_of idx)) c_arr (permutations idx)"
  have "?c p = v \<or> (\<exists>idx \<in> set indices. p \<in> set (permutations idx))"
    using Cons.prems by (auto simp: write_perms)
  moreover have "\<forall>idx \<in> set indices. p \<in> set (permutations idx) \<longrightarrow> symbol_of idx = v"
    using Cons.prems(2) by simp
  ultimately have "foldl (\<lambda>c_arr idx.
            foldl (\<lambda>c_arr perm. c_arr(perm := symbol_of idx)) c_arr (permutations idx))
          ?c indices p = v"
    by (rule Cons.IH)
  then show ?case by (simp only: foldl_Cons)
qed

lemma in_shape_sort:
  assumes "in_shape r d p"
  shows "sort p \<in> set (combinations_with_replacement [0..<d] r)"
  using assms by (auto simp: set_cwr in_shape_def list_all_iff)

lemma c_arr_sort:
  assumes "in_shape r d p"
  shows "snd (get_symbol_list r d) p = symbol_of (sort p)"
proof -
  let ?indices = "combinations_with_replacement [0..<d] r"
  have "idx = sort p" if "idx \<in> set ?indices" "p \<in> set (permutations idx)" for idx
  proof -
    from that(1) have "sorted idx" by (simp add: set_cwr)
    moreover from that(2) have "mset idx = mset p" by (simp add: set_permutations)
    ultimately show ?thesis by (simp add: properties_for_sort)
  qed
  moreover have "p \<in> set (permutations (sort p))"
    by (simp add: set_permutations)
  ultimately show ?thesis
    unfolding get_symbol_list_def Let_def snd_conv
    by (intro write_all) (use in_shape_sort [OF assms] in blast)+
qed

lemma in_shape_lt10:
  "in_shape r 6 p \<Longrightarrow> \<forall>n \<in> set (sort p). n < 10"
  by (auto simp: in_shape_def list_all_iff)

text \<open>
  Claim C2. For every rank r and dimension 6: the symbol vector has (r + 5) choose r
  entries, all distinct; two index tuples of the dense array hold the same entry if and
  only if one is a permutation of the other; swapping the positions i and j of an index
  tuple (the transposition of two axes) does not change the entry read; and every cell
  holds one of the symbols of the vector.
\<close>

theorem C2_symbol_table:
  "length (fst (get_symbol_list r 6)) = (r + 5) choose r
   \<and> distinct (fst (get_symbol_list r 6))
   \<and> (\<forall>p q. in_shape r 6 p \<and> in_shape r 6 q \<longrightarrow>
         (snd (get_symbol_list r 6) p = snd (get_symbol_list r 6) q \<longleftrightarrow> mset p = mset q))
   \<and> (\<forall>p i j. in_shape r 6 p \<and> i < r \<and> j < r \<longrightarrow>
         snd (get_symbol_list r 6) (p[i := p ! j, j := p ! i]) = snd (get_symbol_list r 6) p)
   \<and> (\<forall>p. in_shape r 6 p \<longrightarrow> snd (get_symbol_list r 6) p \<in> set (fst (get_symbol_list r 6)))"
proof (intro conjI allI impI)
  let ?indices = "combinations_with_replacement [0..<6] r"
  have fst: "fst (get_symbol_list r 6) = map symbol_of ?indices"
    by (simp add: get_symbol_list_def Let_def)
  show "length (fst (get_symbol_list r 6)) = (r + 5) choose r"
    by (simp add: fst length_cwr add.commute)
  have small: "\<forall>n \<in> set idx. n < 10" if "idx \<in> set ?indices" for idx
    using that by (auto simp: set_cwr)
  have "inj_on symbol_of (set ?indices)"
    by (intro inj_onI symbol_of_inj small)
  then show "distinct (fst (get_symbol_list r 6))"
    by (simp add: fst distinct_map distinct_cwr)
  show "snd (get_symbol_list r 6) p = snd (get_symbol_list r 6) q \<longleftrightarrow> mset p = mset q"
    if "in_shape r 6 p \<and> in_shape r 6 q" for p q
  proof -
    from that have "snd (get_symbol_list r 6) p = snd (get_symbol_list r 6) q
                      \<longleftrightarrow> symbol_of (sort p) = symbol_of (sort q)"
      by (simp add: c_arr_sort)
    also have "\<dots> \<longleftrightarrow> sort p = sort q"
      using that symbol_of_inj [OF in_shape_lt10 in_shape_lt10, of r p r q] by auto
    also have "\<dots> \<longleftrightarrow> mset p = mset q"
      by (metis mset_sort properties_for_sort sorted_sort)
    finally show ?thesis .
  qed
  show "snd (get_symbol_list r 6) (p[i := p ! j, j := p ! i]) = snd (get_symbol_list r 6) p"
    if "in_shape r 6 p \<and> i < r \<and> j < r" for p i j
  proof -
    from that have m: "mset (p[i := p ! j, j := p ! i]) = mset p"
      by (simp add: in_shape_def mset_swap)
    then have "set (p[i := p ! j, j := p ! i]) = set p" by (rule mset_eq_setD)
    with that have "in_shape r 6 (p[i := p ! j, j := p ! i])"
      by (simp add: in_shape_def list_all_iff)
    moreover from m have "sort (p[i := p ! j, j := p ! i]) = sort p"
      by (intro properties_for_sort) simp_all
    ultimately show ?thesis using that
      by (simp add: c_arr_sort)
  qed
  show "snd (get_symbol_list r 6) p \<in> set (fst (get_symbol_list r 6))" if "in_shape r 6 p" for p
    using that in_shape_sort [OF that] by (simp add: c_arr_sort fst)
qed

theorem C2_witness:
  "length (fst (get_symbol_list 2 6)) = 21
   \<and> snd (get_symbol_list 2 6) [3, 1] = snd (get_symbol_list 2 6) [1, 3]
   \<and> snd (get_symbol_list 2 6) [1, 4] \<noteq> snd (get_symbol_list 2 6) [1, 3]
   \<and> snd (get_symbol_list 2 6) ([1, 3][0 := [1, 3] ! 1, 1 := [1, 3] ! 0])
       = snd (get_symbol_list 2 6) [1, 3]"
proof -
  have s: "in_shape 2 6 [3, 1]" "in_shape 2 6 [1, 3]" "in_shape 2 6 [1, 4]"
    by (simp_all add: in_shape_def)
  have c: "(2 + 5) choose 2 = (21::nat)" by (simp add: choose_two)
  note t = C2_symbol_table [of 2]
  from t have A: "length (fst (get_symbol_list 2 6)) = (2 + 5) choose 2" by (rule conjunct1)
  from t have B: "\<forall>p q. in_shape 2 6 p \<and> in_shape 2 6 q \<longrightarrow>
         (snd (get_symbol_list 2 6) p = snd (get_symbol_list 2 6) q \<longleftrightarrow> mset p = mset q)"
    by (elim conjE)
  from t have D: "\<forall>p i j. in_shape 2 6 p \<and> i < 2 \<and> j < 2 \<longrightarrow>
         snd (get_symbol_list 2 6) (p[i := p ! j, j := p ! i]) = snd (get_symbol_list 2 6) p"
    by (elim conjE)
  have 1: "snd (get_symbol_list 2 6) [3, 1] = snd (get_symbol_list 2 6) [1, 3]"
    using B [rule_format, of "[3, 1]" "[1, 3]"] s by simp
  have 2: "snd (get_symbol_list 2 6) [1, 4] \<noteq> snd (get_symbol_list 2 6) [1, 3]"
    using B [rule_format, of "[1, 4]" "[1, 3]"] s by simp
  have 3: "snd (get_symbol_list 2 6) ([1, 3][0 := [1, 3] ! 1, 1 := [1, 3] ! 0])
       = snd (get_symbol_list 2 6) [1, 3]"
    using D [rule_format, of "[1, 3]" 0 1] s by simp
  from A c 1 2 3 show ?thesis by simp
qed

subsection \<open>The exact solver\<close>

lemma dot_Nil [simp]: "dot [] v = 0" "dot u [] = 0"
  by (simp_all add: dot_def)

lemma dot_Cons [simp]: "dot (x # u) (y # v) = x * y + dot u v"
  by (simp add: dot_def)

lemma dot_commute: "dot u v = dot v u"
proof (induction u arbitrary: v)
  case Nil
  then show ?case by simp
next
  case (Cons x u)
  then show ?case by (cases v) (simp_all add: mult.commute)
qed

lemma dot_replicate_0: "dot u (replicate n 0) = 0"
proof (induction u arbitrary: n)
  case Nil
  then show ?case by simp
next
  case (Cons x u)
  then show ?case by (cases n) simp_all
qed

lemma dot_sub:
  "length a = length b \<Longrightarrow> length b = length xs \<Longrightarrow>
   dot (map2 (\<lambda>x y. x - f * y) a b) xs = dot a xs - f * dot b xs"
  by (induction a b xs rule: list_induct3) (simp_all add: algebra_simps)

text \<open>One step of elimination, read backwards.\<close>

lemma length_eliminate:
  "length r = Suc n \<Longrightarrow> length pr = Suc n \<Longrightarrow> length (fst (eliminate pr pc (r, c))) = n"
  by (simp add: eliminate_def Let_def)

lemma elim_step:
  assumes p: "hd pr \<noteq> 0" and lr: "length r = Suc n" and lp: "length pr = Suc n"
    and lx: "length xs = n"
    and red: "dot (fst (eliminate pr pc (r, c))) xs = snd (eliminate pr pc (r, c))"
  shows "dot r ((pc - dot (tl pr) xs) / hd pr # xs) = c"
proof -
  from lr obtain r0 rs where r: "r = r0 # rs" "length rs = n" by (cases r) auto
  from lp obtain p0 ps where pr: "pr = p0 # ps" "length ps = n" by (cases pr) auto
  from red have "dot (map2 (\<lambda>x y. x - r0 / p0 * y) rs ps) xs = c - r0 / p0 * pc"
    unfolding r pr eliminate_def Let_def fst_conv snd_conv list.sel .
  then have "dot rs xs - r0 / p0 * dot ps xs = c - r0 / p0 * pc"
    using r pr lx by (subst (asm) dot_sub) simp_all
  then have "dot rs xs = c - r0 / p0 * (pc - dot ps xs)"
    by (simp add: algebra_simps)
  with p pr r show ?thesis by (simp add: field_simps)
qed

lemma pivot_split:
  assumes "p < length rows"
  shows "set rows = insert (rows ! p) (set (take p rows @ drop (Suc p) rows))"
proof -
  have "rows = take p rows @ rows ! p # drop (Suc p) rows"
    using assms by (rule id_take_nth_drop)
  then have "set rows = set (take p rows @ rows ! p # drop (Suc p) rows)" by simp
  then show ?thesis by (simp only: set_append set_simps) blast
qed

lemma length_others:
  "p < length rows \<Longrightarrow> length rows = Suc n \<Longrightarrow> length (take p rows @ drop (Suc p) rows) = n"
  by simp

lemma solve_rows_sound:
  assumes "solve_rows n rows = Inr xs" and "\<And>r c. (r, c) \<in> set rows \<Longrightarrow> length r = n"
    and "length rows = n"
  shows "length xs = n \<and> (\<forall>(r, c) \<in> set rows. dot r xs = c)"
  using assms
proof (induction n arbitrary: rows xs)
  case 0
  then show ?case by auto
next
  case (Suc n)
  define p where "p = argmin (map (\<lambda>(r, c). - \<bar>hd r\<bar>) rows)"
  define pr where "pr = fst (rows ! p)"
  define pc where "pc = snd (rows ! p)"
  define others where "others = take p rows @ drop (Suc p) rows"
  from Suc.prems(3) have ne: "rows \<noteq> []" by auto
  from Suc.prems(1) ne have nz: "hd pr \<noteq> 0"
    by (auto simp: Let_def p_def pr_def split: if_splits)
  from Suc.prems(1) ne nz obtain ys where ys: "solve_rows n (map (eliminate pr pc) others) = Inr ys"
    and xs: "xs = (pc - dot (tl pr) ys) / hd pr # ys"
    by (auto simp: Let_def p_def pr_def pc_def others_def split: sum.splits)
  from ne have p: "p < length rows"
    unfolding p_def using argmin_less [of "map (\<lambda>(r, c). - \<bar>hd r\<bar>) rows"] by simp
  then have "(pr, pc) \<in> set rows" unfolding pr_def pc_def by simp
  then have lp: "length pr = Suc n" by (rule Suc.prems(2))
  have split: "set rows = insert (pr, pc) (set others)"
    unfolding pr_def pc_def others_def using pivot_split [OF p] by simp
  have lo: "length r = Suc n" if "(r, c) \<in> set others" for r c
    using that split Suc.prems(2) by blast
  have "length r' = n" if "(r', c') \<in> set (map (eliminate pr pc) others)" for r' c'
  proof -
    from that obtain r c where rc: "(r, c) \<in> set others" and "(r', c') = eliminate pr pc (r, c)"
      by auto
    then have "r' = fst (eliminate pr pc (r, c))" by (metis fst_conv)
    with length_eliminate [OF lo [OF rc] lp] show ?thesis by simp
  qed
  moreover have "length (map (eliminate pr pc) others) = n"
    unfolding others_def using length_others [OF p Suc.prems(3)] by simp
  ultimately have "length ys = n \<and> (\<forall>(r, c) \<in> set (map (eliminate pr pc) others). dot r ys = c)"
    by (intro Suc.IH [OF ys])
  then have ly: "length ys = n"
    and red: "\<And>rc. rc \<in> set others \<Longrightarrow> dot (fst (eliminate pr pc rc)) ys = snd (eliminate pr pc rc)"
    by (auto simp: case_prod_beta)
  have "dot r xs = c" if "(r, c) \<in> set rows" for r c
  proof (cases "(r, c) = (pr, pc)")
    case True
    moreover from lp obtain p0 ps where "pr = p0 # ps" by (cases pr) auto
    ultimately show ?thesis using nz xs by (simp add: field_simps)
  next
    case False
    with that split have mem: "(r, c) \<in> set others" by auto
    show ?thesis unfolding xs
      using nz lo [OF mem] lp ly red [OF mem] by (rule elim_step)
  qed
  with ly xs show ?case by auto
qed

text \<open>When the solver fails on a square system, the matrix has a nonzero kernel vector.\<close>

lemma eliminate_homogeneous:
  "fst (eliminate pr pc (r, c)) = fst (eliminate pr 0 (r, 0))" "snd (eliminate pr 0 (r, 0)) = 0"
  by (simp_all add: eliminate_def Let_def)

lemma solve_rows_fails:
  assumes "solve_rows n rows = Inl e" and "\<And>r c. (r, c) \<in> set rows \<Longrightarrow> length r = n"
    and "length rows = n"
  shows "\<exists>y. length y = n \<and> (\<exists>v \<in> set y. v \<noteq> 0) \<and> (\<forall>(r, c) \<in> set rows. dot r y = 0)"
  using assms
proof (induction n arbitrary: rows e)
  case 0
  then show ?case by simp
next
  case (Suc n)
  define p where "p = argmin (map (\<lambda>(r, c). - \<bar>hd r\<bar>) rows)"
  define pr where "pr = fst (rows ! p)"
  define pc where "pc = snd (rows ! p)"
  define others where "others = take p rows @ drop (Suc p) rows"
  from Suc.prems(3) have ne: "rows \<noteq> []" by auto
  from ne have p: "p < length rows"
    unfolding p_def using argmin_less [of "map (\<lambda>(r, c). - \<bar>hd r\<bar>) rows"] by simp
  then have "(pr, pc) \<in> set rows" unfolding pr_def pc_def by simp
  then have lp: "length pr = Suc n" by (rule Suc.prems(2))
  then obtain p0 ps where pr: "pr = p0 # ps" "length ps = n" by (cases pr) auto
  have split: "set rows = insert (pr, pc) (set others)"
    unfolding pr_def pc_def others_def using pivot_split [OF p] by simp
  have lo: "length r = Suc n" if "(r, c) \<in> set others" for r c
    using that split Suc.prems(2) by blast
  show ?case
  proof (cases "hd pr = 0")
    case True
    have "hd r = 0" if "(r, c) \<in> set rows" for r c
    proof -
      from that obtain i where i: "i < length rows" "rows ! i = (r, c)"
        by (auto simp: in_set_conv_nth)
      then have "map (\<lambda>(r, c). - \<bar>hd r\<bar>) rows ! p \<le> map (\<lambda>(r, c). - \<bar>hd r\<bar>) rows ! i"
        unfolding p_def by (intro argmin_le) simp
      with i p True show ?thesis by (simp add: pr_def case_prod_beta)
    qed
    moreover have "dot r (1 # replicate n 0) = hd r" if "(r, c) \<in> set rows" for r c
    proof -
      from Suc.prems(2) [OF that] obtain r0 rs where "r = r0 # rs" by (cases r) auto
      then show ?thesis by (simp add: dot_replicate_0)
    qed
    ultimately have "\<forall>(r, c) \<in> set rows. dot r (1 # replicate n 0) = 0" by auto
    then show ?thesis by (intro exI [of _ "1 # replicate n 0"]) simp
  next
    case False
    with Suc.prems(1) ne obtain e' where fail: "solve_rows n (map (eliminate pr pc) others) = Inl e'"
      by (auto simp: Let_def p_def pr_def pc_def others_def split: sum.splits)
    have l1: "length r' = n" if "(r', c') \<in> set (map (eliminate pr pc) others)" for r' c'
    proof -
      from that obtain r c where rc: "(r, c) \<in> set others" and "(r', c') = eliminate pr pc (r, c)"
        by auto
      then have "r' = fst (eliminate pr pc (r, c))" by (metis fst_conv)
      with length_eliminate [OF lo [OF rc] lp] show ?thesis by simp
    qed
    have l2: "length (map (eliminate pr pc) others) = n"
      unfolding others_def using length_others [OF p Suc.prems(3)] by simp
    have "\<exists>y. length y = n \<and> (\<exists>v \<in> set y. v \<noteq> 0) \<and>
               (\<forall>(r, c) \<in> set (map (eliminate pr pc) others). dot r y = 0)"
      using fail l1 l2 by (rule Suc.IH)
    then obtain y where ly: "length y = n" and nzy: "\<exists>v \<in> set y. v \<noteq> 0"
      and ker: "\<forall>(r, c) \<in> set (map (eliminate pr pc) others). dot r y = 0"
      by (elim exE conjE)
    let ?y = "(0 - dot (tl pr) y) / hd pr # y"
    have "dot r ?y = 0" if "(r, c) \<in> set rows" for r c
    proof (cases "(r, c) = (pr, pc)")
      case True
      with False pr show ?thesis by simp
    next
      case no: False
      with that split have mem: "(r, c) \<in> set others" by auto
      with ker have "dot (fst (eliminate pr pc (r, c))) y = 0" by (auto simp: case_prod_beta)
      then have "dot (fst (eliminate pr 0 (r, 0))) y = snd (eliminate pr 0 (r, 0))"
        unfolding eliminate_homogeneous(2) eliminate_homogeneous(1) [of pr pc r c] .
      with False lo [OF mem] lp ly show ?thesis by (rule elim_step)
    qed
    with ly nzy show ?thesis by (intro exI [of _ ?y]) auto
  qed
qed

subsection \<open>Powers of distinct nodes\<close>

lemma dot_shift:
  "length ys = length hs \<Longrightarrow>
   dot (map (\<lambda>h. h ^ k) hs) (map2 (\<lambda>y h. y * (h - h0)) ys hs)
     = dot (map (\<lambda>h. h ^ Suc k) hs) ys - h0 * dot (map (\<lambda>h. h ^ k) hs) ys"
  by (induction ys hs rule: list_induct2) (simp_all add: algebra_simps)

lemma vandermonde_kernel:
  assumes "distinct hs" and "length ys = length hs"
    and "\<And>k. k < length hs \<Longrightarrow> dot (map (\<lambda>h. h ^ k) hs) ys = 0"
  shows "\<forall>y \<in> set ys. y = 0"
  using assms
proof (induction hs arbitrary: ys)
  case Nil
  then show ?case by simp
next
  case (Cons h0 hs)
  from Cons.prems(2) obtain y0 ys' where ys: "ys = y0 # ys'" and l: "length ys' = length hs"
    by (cases ys) auto
  let ?zs = "map2 (\<lambda>y h. y * (h - h0)) ys' hs"
  have S: "h0 ^ k * y0 + dot (map (\<lambda>h. h ^ k) hs) ys' = 0" if "k < Suc (length hs)" for k
    using Cons.prems(3) [of k] that ys by simp
  have "dot (map (\<lambda>h. h ^ k) hs) ?zs = 0" if "k < length hs" for k
  proof -
    from S [of k] S [of "Suc k"] that
    have "dot (map (\<lambda>h. h ^ k) hs) ys' = - (h0 ^ k * y0)"
      and "dot (map (\<lambda>h. h ^ Suc k) hs) ys' = - (h0 ^ Suc k * y0)" by simp_all
    then show ?thesis by (simp add: dot_shift [OF l])
  qed
  moreover from Cons.prems(1) have "distinct hs" by simp
  moreover have "length ?zs = length hs" using l by simp
  ultimately have z: "\<forall>z \<in> set ?zs. z = 0" by (intro Cons.IH)
  have "y = 0" if "y \<in> set ys'" for y
  proof -
    from that obtain i where i: "i < length ys'" "ys' ! i = y" by (auto simp: in_set_conv_nth)
    with l have "?zs ! i = y * (hs ! i - h0)" by simp
    moreover from i l have "?zs ! i \<in> set ?zs" by (intro nth_mem) simp
    ultimately have "y * (hs ! i - h0) = 0" using z by auto
    moreover from Cons.prems(1) i l have "hs ! i \<noteq> h0" by (metis distinct.simps(2) nth_mem)
    ultimately show ?thesis by simp
  qed
  then have zero: "\<forall>y \<in> set ys'. y = 0" by blast
  then have "ys' = replicate (length ys') 0" by (simp add: replicate_length_same)
  then have "dot (map (\<lambda>h. h ^ 0) hs) ys' = 0" by (metis dot_replicate_0)
  with S [of 0] have "y0 = 0" by simp
  with zero ys show ?case by simp
qed

subsection \<open>Finite-difference coefficients\<close>

lemma get_diff_coeff_solve_rows:
  assumes "n < length hvec"
  shows "get_diff_coeff hvec n
           = solve_rows (length hvec)
               (zip (map (\<lambda>k. map (\<lambda>h. h ^ k) hvec) [0..<length hvec])
                    ((replicate (length hvec) 0)[n := fact n]))"
  using assms by (simp add: get_diff_coeff_def solve_def Let_def list_all_iff)

lemma get_diff_coeff_exact:
  assumes "distinct hvec" and "n < length hvec"
  shows "\<exists>coef. get_diff_coeff hvec n = Inr coef \<and> length coef = length hvec \<and>
           (\<forall>k<length hvec. dot coef (map (\<lambda>h. h ^ k) hvec) = (if k = n then fact n else 0))"
proof -
  define m where "m = length hvec"
  define a where "a = map (\<lambda>k. map (\<lambda>h. h ^ k) hvec) [0..<m]"
  define b where "b = (replicate m (0::real))[n := fact n]"
  define rows where "rows = zip a b"
  have g: "get_diff_coeff hvec n = solve_rows m rows"
    unfolding rows_def a_def b_def m_def by (rule get_diff_coeff_solve_rows [OF assms(2)])
  have lrows: "length rows = m" by (simp add: rows_def a_def b_def)
  have nth: "rows ! k = (map (\<lambda>h. h ^ k) hvec, if k = n then fact n else 0)" if "k < m" for k
    using that by (simp add: rows_def a_def b_def)
  have lrow: "length r = m" if "(r, c) \<in> set rows" for r c
  proof -
    from that obtain k where "k < length rows" "rows ! k = (r, c)" by (auto simp: in_set_conv_nth)
    with nth [of k] lrows show ?thesis by (simp add: m_def)
  qed
  have mem: "(map (\<lambda>h. h ^ k) hvec, if k = n then fact n else 0) \<in> set rows" if "k < m" for k
    using nth [OF that] nth_mem [of k rows] that lrows by simp
  show ?thesis
  proof (cases "solve_rows m rows")
    case (Inl e)
    have "\<exists>y. length y = m \<and> (\<exists>v \<in> set y. v \<noteq> 0) \<and> (\<forall>(r, c) \<in> set rows. dot r y = 0)"
      using Inl lrow lrows by (rule solve_rows_fails)
    then obtain y where ly: "length y = m" and nz: "\<exists>v \<in> set y. v \<noteq> 0"
      and ker: "\<forall>(r, c) \<in> set rows. dot r y = 0" by blast
    have "dot (map (\<lambda>h. h ^ k) hvec) y = 0" if "k < length hvec" for k
      using ker mem [of k] that by (auto simp: m_def)
    with assms(1) ly have "\<forall>v \<in> set y. v = 0"
      unfolding m_def by (intro vandermonde_kernel)
    with nz show ?thesis by blast
  next
    case (Inr xs)
    have "length xs = m \<and> (\<forall>(r, c) \<in> set rows. dot r xs = c)"
      using Inr lrow lrows by (rule solve_rows_sound)
    then have lx: "length xs = m" and sol: "\<forall>(r, c) \<in> set rows. dot r xs = c" by auto
    have "dot xs (map (\<lambda>h. h ^ k) hvec) = (if k = n then fact n else 0)" if "k < m" for k
      using sol mem [OF that] by (subst dot_commute) auto
    with g Inr lx show ?thesis by (simp add: m_def)
  qed
qed

text \<open>
  Claim C3, in exact arithmetic. For a stencil of m distinct values and n < m,
  \<^verbatim>\<open>get_diff_coeff\<close> returns a coefficient vector of length m, and for every
  k < m the dot product of the coefficients with the k-th powers of the stencil is n!
  when k = n and 0 otherwise: the n-th derivative of x^k at 0.
\<close>

theorem C3_exact_on_polynomials:
  assumes "distinct hvec" and "n < length hvec"
  shows "\<exists>coef. get_diff_coeff hvec n = Inr coef \<and> length coef = length hvec \<and>
           (\<forall>k<length hvec. dot coef (map (\<lambda>h. h ^ k) hvec) = (if k = n then fact n else 0))"
  using assms by (rule get_diff_coeff_exact)

theorem C3_witness:
  "get_diff_coeff [- 1, 0, 1] 1 = Inr [- 1 / 2, 0, 1 / 2]
   \<and> (\<exists>coef. get_diff_coeff [- 1, 0, 1] 1 = Inr coef
        \<and> dot coef (map (\<lambda>h. h ^ 0) [- 1, 0, 1]) = 0
        \<and> dot coef (map (\<lambda>h. h ^ 1) [- 1, 0, 1]) = 1
        \<and> dot coef (map (\<lambda>h. h ^ 2) [- 1, 0, 1]) = 0)"
proof -
  have d: "distinct [- 1, 0, 1 :: real]" by simp
  have l: "(1::nat) < length [- 1, 0, 1 :: real]" by simp
  have v: "get_diff_coeff [- 1, 0, 1] 1 = Inr [- 1 / 2, 0, 1 / 2]" by code_simp
  from C3_exact_on_polynomials [OF d l] obtain coef where c: "get_diff_coeff [- 1, 0, 1] 1 = Inr coef"
    and e: "\<forall>k<length [- 1, 0, 1 :: real].
              dot coef (map (\<lambda>h. h ^ k) [- 1, 0, 1]) = (if k = 1 then fact 1 else 0)"
    by blast
  from e [rule_format, of 0] e [rule_format, of 1] e [rule_format, of 2]
  have "dot coef (map (\<lambda>h. h ^ 0) [- 1, 0, 1]) = 0"
    "dot coef (map (\<lambda>h. h ^ 1) [- 1, 0, 1]) = 1" "dot coef (map (\<lambda>h. h ^ 2) [- 1, 0, 1]) = 0"
    by simp_all
  with c v show ?thesis by blast
qed

end
